theory Spec2Isabelle
  imports Main "HOL-Library.AList"
begin

section \<open>joiql: Joi descriptions to GraphQL types (src/index.js)\<close>

text \<open>
  A shallow embedding of \<^verbatim>\<open>src/index.js\<close>. The module keeps two pieces of process-wide
  mutable state, the object \<^verbatim>\<open>cachedTypes\<close> and the counter behind lodash's
  \<^verbatim>\<open>uniqueId\<close>; both are threaded explicitly through every function as a record.
  A JavaScript exception is a value \<open>Inl e\<close>; the state reached before the exception is
  dropped, since no caller of the module catches anything.

  What the embedding takes from the libraries the module calls, and where it stops:
  \<^item> a Joi description is a finite tree; \<^verbatim>\<open>schema.describe()\<close> is pure and returns a new
    tree at every call, so a schema is represented by its description; \<^verbatim>\<open>meta\<close> is a
    list of annotations, absent when empty (Joi only emits the property for a non-empty
    list); \<^verbatim>\<open>children\<close> absent and \<^verbatim>\<open>children\<close> empty are the same list; a JavaScript
    object is an association list in enumeration order (keys that are array indices
    first, in ascending order, then the others as they were inserted);
  \<^item> a constructor of graphql-js checks its argument, throws when the check fails, and
    builds data otherwise: a named type (object, input object, union) must have a name,
    and the name must match \<^verbatim>\<open>/^[_a-zA-Z][_a-zA-Z0-9]*$/\<close>; \<^verbatim>\<open>GraphQLNonNull\<close> refuses a type that
    is a \<^verbatim>\<open>GraphQLNonNull\<close> already. Fields and union members are not looked at before
    \<^verbatim>\<open>new GraphQLSchema\<close>, which walks the whole graph; that constructor is a parameter of
    \<open>joiql\<close>. Object identity, which JavaScript gives for free, is made visible by a
    reference number taken from a counter at every \<^verbatim>\<open>new\<close>: two nodes are the same
    instance iff they are equal here;
  \<^item> type names and kind strings are not names of members of \<^verbatim>\<open>Object.prototype\<close>
    (a lookup of \<^verbatim>\<open>cachedTypes['toString']\<close> is outside the embedding);
  \<^item> \<^verbatim>\<open>Joi.validate\<close> is a parameter of the resolver wrapper, and an \<^verbatim>\<open>isTypeOf\<close>
    annotation is a predicate on values;
  \<^item> descriptions are values. \<^verbatim>\<open>assign\<close> on line 120 writes the merged keys into the
    \<^verbatim>\<open>children\<close> object of the first candidate, and the embedding returns the merged
    list without changing the candidate. The two agree as long as no description is read
    after it was written; the source reads a written description only when a composite
    in input position lies below a child of a candidate of another composite in input
    position (the outer call translates the merged children once more, in output
    position); there the embedding translates the description as it was before the
    write.
\<close>

subsection \<open>Values, descriptions, type-graph nodes\<close>

datatype jsval = JUndefined | JNull | JBool bool | JNum int | JStr string
  | JArr "jsval list" | JObj "(string \<times> jsval) list"

text \<open>
  What the module can throw: the \<^verbatim>\<open>TypeError\<close> of the language, the \<^verbatim>\<open>Error\<close> of a failed
  \<^verbatim>\<open>invariant\<close> of graphql-js, and the error \<^verbatim>\<open>Joi.validate\<close> returns.
\<close>

datatype error = TypeError | InvariantViolation | ValidationError string

type_synonym resolver = "jsval \<Rightarrow> jsval \<Rightarrow> jsval \<Rightarrow> jsval \<Rightarrow> error + jsval"

datatype desc = Desc
    (type: string)
    (flags_presence: "string option")
    (rules: "string list")
    (children: "(string \<times> desc) list")
    (items: "desc list option")
    (alternatives: "desc list option")
    (meta: "meta list")
    (description: "string option")
and meta = Meta
    (meta_name: "string option")
    (meta_args: "(string \<times> desc) list option")
    (meta_resolve: "resolver option")
    (meta_isTypeOf: "(jsval \<Rightarrow> bool) option")

text \<open>
  A field descriptor built by \<^verbatim>\<open>descsToFields\<close> holds the closure
  \<^verbatim>\<open>validatedResolve(desc)\<close>, kept as the description it closes over; a union holds the
  closure \<^verbatim>\<open>resolveType\<close>, kept as the \<^verbatim>\<open>types\<close> and \<^verbatim>\<open>items\<close> it closes over.
\<close>

datatype gtype = GraphQLBoolean | GraphQLString | GraphQLFloat | GraphQLInt
  | GraphQLObjectType nat string "string option" "(string \<times> field) list"
  | GraphQLInputObjectType nat string "string option" "(string \<times> field) list"
  | GraphQLList nat gtype
  | GraphQLUnionType nat string "string option" "gtype list" "desc list"
  | GraphQLNonNull nat gtype
and field = InputField gtype
  | Field gtype "(string \<times> gtype) list option" string desc

record tstate =
  cachedTypes :: "string \<rightharpoonup> gtype"
  idCounter :: nat
  nextRef :: nat

record jois =
  query :: "(string \<times> desc) list option"
  mutation :: "(string \<times> desc) list option"

record attrs =
  attrs_query :: "gtype option"
  attrs_mutation :: "gtype option"


subsection \<open>lodash helpers\<close>

definition digit_char :: "nat \<Rightarrow> char" where
  "digit_char n = ''0123456789'' ! (n mod 10)"

function show_nat :: "nat \<Rightarrow> string" where
  "show_nat n =
     (if n < 10 then [digit_char n]
      else show_nat (n div 10) @ [digit_char (n mod 10)])"
  by pat_completeness auto
termination
  by (relation "measure id") auto

declare show_nat.simps [simp del]

text \<open>\<^verbatim>\<open>uniqueId()\<close>: \<^verbatim>\<open>var id = ++idCounter; return toString(prefix) + id\<close>.\<close>

definition uniqueId :: "tstate \<Rightarrow> string \<times> tstate" where
  "uniqueId st = (let id = idCounter st + 1 in (show_nat id, st\<lparr>idCounter := id\<rparr>))"

definition to_lower_char :: "char \<Rightarrow> char" where
  "to_lower_char c =
     (case map_of (zip ''ABCDEFGHIJKLMNOPQRSTUVWXYZ'' ''abcdefghijklmnopqrstuvwxyz'') c of
        None \<Rightarrow> c | Some l \<Rightarrow> l)"

definition to_upper_char :: "char \<Rightarrow> char" where
  "to_upper_char c =
     (case map_of (zip ''abcdefghijklmnopqrstuvwxyz'' ''ABCDEFGHIJKLMNOPQRSTUVWXYZ'') c of
        None \<Rightarrow> c | Some u \<Rightarrow> u)"

text \<open>\<^verbatim>\<open>capitalize(s) = upperFirst(toString(s).toLowerCase())\<close>, on ASCII letters.\<close>

definition capitalize :: "string \<Rightarrow> string" where
  "capitalize s = (case map to_lower_char s of [] \<Rightarrow> [] | c # cs \<Rightarrow> to_upper_char c # cs)"

fun join :: "string \<Rightarrow> string list \<Rightarrow> string" where
  "join sep [] = []"
| "join sep [x] = x"
| "join sep (x # y # ys) = x @ sep @ join sep (y # ys)"

text \<open>
  A key is an array index when it is the decimal numeral, without leading zeros, of a
  number below \<open>2\<^sup>3\<^sup>2 - 1\<close>. An object enumerates its array indices first, in ascending
  order, and its other keys after them, in the order of their insertion.
\<close>

definition digit_of :: "char \<Rightarrow> nat option" where
  "digit_of c = map_of (zip ''0123456789'' [0, 1, 2, 3, 4, 5, 6, 7, 8, 9]) c"

fun decimal :: "string \<Rightarrow> nat \<Rightarrow> nat option" where
  "decimal [] acc = Some acc"
| "decimal (c # cs) acc =
     (case digit_of c of None \<Rightarrow> None | Some dgt \<Rightarrow> decimal cs (10 * acc + dgt))"

definition array_index :: "string \<Rightarrow> nat option" where
  "array_index k =
     (case k of
        [] \<Rightarrow> None
      | c # cs \<Rightarrow>
          if c = CHR ''0'' \<and> cs \<noteq> [] then None
          else (case decimal k 0 of
                  None \<Rightarrow> None
                | Some i \<Rightarrow> if i < 4294967295 then Some i else None))"

fun insert_index :: "nat \<Rightarrow> string \<Rightarrow> 'a \<Rightarrow> (string \<times> 'a) list \<Rightarrow> (string \<times> 'a) list" where
  "insert_index i k v [] = [(k, v)]"
| "insert_index i k v (kv # rest) =
     (case array_index (fst kv) of
        None \<Rightarrow> (k, v) # kv # rest
      | Some j \<Rightarrow> if j < i then kv # insert_index i k v rest else (k, v) # kv # rest)"

text \<open>\<^verbatim>\<open>object[k] = v\<close>: a key already there keeps its place and takes the new value.\<close>

definition put :: "string \<Rightarrow> 'a \<Rightarrow> (string \<times> 'a) list \<Rightarrow> (string \<times> 'a) list" where
  "put k v object =
     (case array_index k of
        None \<Rightarrow> AList.update k v object
      | Some i \<Rightarrow>
          if k \<in> fst ` set object then AList.update k v object else insert_index i k v object)"

text \<open>
  \<^verbatim>\<open>assign(object, ...sources)\<close> copies the own keys of every source into the first
  argument, source by source and key by key.
\<close>

definition assign2 :: "(string \<times> 'a) list \<Rightarrow> (string \<times> 'a) list \<Rightarrow> (string \<times> 'a) list" where
  "assign2 object source = foldl (\<lambda>acc kv. put (fst kv) (snd kv) acc) object source"

definition assign :: "(string \<times> 'a) list list \<Rightarrow> (string \<times> 'a) list" where
  "assign objs = (case objs of [] \<Rightarrow> [] | object # sources \<Rightarrow> foldl assign2 object sources)"



text \<open>\<^verbatim>\<open>keys(v)\<close>: the own enumerable keys, the indices of an array or a string.\<close>

definition keys :: "jsval \<Rightarrow> string list" where
  "keys v = (case v of JObj kvs \<Rightarrow> map fst kvs
     | JArr xs \<Rightarrow> map show_nat [0..<length xs]
     | JStr s \<Rightarrow> map show_nat [0..<length s]
     | _ \<Rightarrow> [])"

subsection \<open>Reading a description\<close>

text \<open>
  \<^verbatim>\<open>presence = (desc, name) => desc.flags && desc.flags.presence &&
  desc.flags.presence === name\<close>
\<close>

definition presence :: "desc \<Rightarrow> string \<Rightarrow> bool" where
  "presence desc name =
     (case flags_presence desc of None \<Rightarrow> False | Some p \<Rightarrow> p \<noteq> [] \<and> p = name)"

definition not_forbidden :: "desc \<Rightarrow> bool" where
  "not_forbidden d = (\<not> presence d ''forbidden'')"

text \<open>\<^verbatim>\<open>map(desc.meta, 'name')[0]\<close> and its siblings read the first annotation only.\<close>

definition first_meta_name :: "desc \<Rightarrow> string option" where
  "first_meta_name desc = (case meta desc of [] \<Rightarrow> None | m # _ \<Rightarrow> meta_name m)"

definition first_meta_args :: "desc \<Rightarrow> (string \<times> desc) list option" where
  "first_meta_args desc = (case meta desc of [] \<Rightarrow> None | m # _ \<Rightarrow> meta_args m)"

definition first_meta_isTypeOf :: "desc \<Rightarrow> (jsval \<Rightarrow> bool) option" where
  "first_meta_isTypeOf desc = (case meta desc of [] \<Rightarrow> None | m # _ \<Rightarrow> meta_isTypeOf m)"

definition first_meta_resolve :: "desc \<Rightarrow> resolver option" where
  "first_meta_resolve desc = (case meta desc of [] \<Rightarrow> None | m # _ \<Rightarrow> meta_resolve m)"

text \<open>
  \<^verbatim>\<open>d.meta.name\<close> (line 90) reads the property \<^verbatim>\<open>name\<close> of the annotation list itself,
  not of an annotation: an array has no such property, whatever it holds.
\<close>

definition meta_dot_name :: "meta list \<Rightarrow> string option" where
  "meta_dot_name ms = None"

definition input_prefix :: "bool \<Rightarrow> string" where
  "input_prefix isInput = (if isInput then ''Input'' else '''')"

text \<open>
  Lines 47-50: \<^verbatim>\<open>(isInput ? 'Input' : '') + (map(desc.meta, 'name')[0] || 'Anon' +
  uniqueId())\<close>. The counter moves only when the name is missing or empty.
\<close>

definition typeName_of :: "desc \<Rightarrow> bool \<Rightarrow> tstate \<Rightarrow> string \<times> tstate" where
  "typeName_of desc isInput st =
     (case first_meta_name desc of
        None \<Rightarrow> (let (u, st') = uniqueId st in (input_prefix isInput @ ''Anon'' @ u, st'))
      | Some n \<Rightarrow>
          if n \<noteq> [] then (input_prefix isInput @ n, st)
          else (let (u, st') = uniqueId st in (input_prefix isInput @ ''Anon'' @ u, st')))"

text \<open>
  Lines 88-95, one item of the composite name:
  \<^verbatim>\<open>(d.meta && capitalize(d.meta.name)) || capitalize(d.type) || 'Anon' + uniqueId()\<close>.
\<close>

definition item_name :: "desc \<Rightarrow> bool \<Rightarrow> tstate \<Rightarrow> string \<times> tstate" where
  "item_name d isInput st =
     (let fromMeta =
            (if meta d \<noteq> []
             then capitalize (case meta_dot_name (meta d) of None \<Rightarrow> [] | Some n \<Rightarrow> n)
             else [])
      in if fromMeta \<noteq> [] then (input_prefix isInput @ fromMeta, st)
         else if capitalize (type d) \<noteq> [] then (input_prefix isInput @ capitalize (type d), st)
         else (let (u, st') = uniqueId st in (input_prefix isInput @ ''Anon'' @ u, st')))"

fun item_names :: "desc list \<Rightarrow> bool \<Rightarrow> tstate \<Rightarrow> string list \<times> tstate" where
  "item_names [] isInput st = ([], st)"
| "item_names (d # ds) isInput st =
     (let (n, st1) = item_name d isInput st;
          (ns, st2) = item_names ds isInput st1
      in (n # ns, st2))"

definition compositeName :: "desc list \<Rightarrow> bool \<Rightarrow> tstate \<Rightarrow> string \<times> tstate" where
  "compositeName its isInput st =
     (let (ns, st') = item_names its isInput st in (join ''Or'' ns, st'))"

definition new_ref :: "tstate \<Rightarrow> tstate" where
  "new_ref st = st\<lparr>nextRef := nextRef st + 1\<rparr>"

text \<open>\<^verbatim>\<open>if (!cachedTypes[typeName]) cachedTypes[typeName] = type\<close> (lines 98 and 106).\<close>

definition cache_if_absent :: "string \<Rightarrow> gtype \<Rightarrow> tstate \<Rightarrow> tstate" where
  "cache_if_absent typeName ty st =
     (if cachedTypes st typeName = None
      then st\<lparr>cachedTypes := (cachedTypes st)(typeName \<mapsto> ty)\<rparr> else st)"

subsection \<open>The constructors of graphql-js\<close>

text \<open>
  \<^verbatim>\<open>invariant(config.name, 'Type must be named.')\<close> and \<^verbatim>\<open>assertValidName(config.name)\<close>,
  the first two statements of the constructors of the named types.
\<close>

definition name_start :: "char \<Rightarrow> bool" where
  "name_start c = (c \<in> set ''_abcdefghijklmnopqrstuvwxyzABCDEFGHIJKLMNOPQRSTUVWXYZ'')"

definition name_continue :: "char \<Rightarrow> bool" where
  "name_continue c = (name_start c \<or> c \<in> set ''0123456789'')"

definition valid_type_name :: "string \<Rightarrow> bool" where
  "valid_type_name n = (case n of [] \<Rightarrow> False | c # cs \<Rightarrow> name_start c \<and> list_all name_continue cs)"

definition new_GraphQLObjectType ::
  "string \<Rightarrow> string option \<Rightarrow> (string \<times> field) list \<Rightarrow> tstate \<Rightarrow> error + (gtype \<times> tstate)" where
  "new_GraphQLObjectType name descr flds st =
     (if valid_type_name name then Inr (GraphQLObjectType (nextRef st) name descr flds, new_ref st)
      else Inl InvariantViolation)"

definition new_GraphQLInputObjectType ::
  "string \<Rightarrow> string option \<Rightarrow> (string \<times> field) list \<Rightarrow> tstate \<Rightarrow> error + (gtype \<times> tstate)" where
  "new_GraphQLInputObjectType name descr flds st =
     (if valid_type_name name
      then Inr (GraphQLInputObjectType (nextRef st) name descr flds, new_ref st)
      else Inl InvariantViolation)"

definition new_GraphQLUnionType ::
  "string \<Rightarrow> string option \<Rightarrow> gtype list \<Rightarrow> desc list \<Rightarrow> tstate \<Rightarrow> error + (gtype \<times> tstate)" where
  "new_GraphQLUnionType name descr types its st =
     (if valid_type_name name
      then Inr (GraphQLUnionType (nextRef st) name descr types its, new_ref st)
      else Inl InvariantViolation)"

definition new_GraphQLList :: "gtype \<Rightarrow> tstate \<Rightarrow> gtype \<times> tstate" where
  "new_GraphQLList ty st = (GraphQLList (nextRef st) ty, new_ref st)"

text \<open>
  \<^verbatim>\<open>invariant(isType(type) && !(type instanceof GraphQLNonNull), 'Can only create NonNull of
  a Nullable GraphQLType ...')\<close>
\<close>

definition is_NonNull :: "gtype \<Rightarrow> bool" where
  "is_NonNull ty = (case ty of GraphQLNonNull r t \<Rightarrow> True | _ \<Rightarrow> False)"

definition new_GraphQLNonNull :: "gtype \<Rightarrow> tstate \<Rightarrow> error + (gtype \<times> tstate)" where
  "new_GraphQLNonNull ty st =
     (if is_NonNull ty then Inl InvariantViolation
      else Inr (GraphQLNonNull (nextRef st) ty, new_ref st))"

text \<open>\<^verbatim>\<open>return required ? new GraphQLNonNull(type) : type\<close> (line 110).\<close>

definition wrap_required ::
  "bool \<Rightarrow> error + (gtype \<times> tstate) \<Rightarrow> error + (gtype \<times> tstate)" where
  "wrap_required required result =
     (case result of
        Inl e \<Rightarrow> Inl e
      | Inr (ty, st') \<Rightarrow> if required then new_GraphQLNonNull ty st' else Inr (ty, st'))"

subsection \<open>Termination measure\<close>

definition csum :: "(string \<times> desc) list \<Rightarrow> nat" where
  "csum cs = sum_list (map (\<lambda>kv. Suc (size (snd kv))) cs)"

definition dsum :: "desc list \<Rightarrow> nat" where
  "dsum ds = sum_list (map (\<lambda>d. Suc (size d)) ds)"

lemma csum_simps [simp]: "csum [] = 0" "csum (kv # cs) = Suc (size (snd kv)) + csum cs"
  by (simp_all add: csum_def)

lemma dsum_simps [simp]: "dsum [] = 0" "dsum (d # ds) = Suc (size d) + dsum ds"
  by (simp_all add: dsum_def)

lemma dsum_filter_le: "dsum (filter P xs) \<le> dsum xs"
  by (induction xs) auto

lemma size_less_dsum: "x \<in> set xs \<Longrightarrow> size x < dsum xs"
  by (induction xs) auto

lemma size_hd_filter: "length (filter P xs) = 1 \<Longrightarrow> size (hd (filter P xs)) < dsum xs"
proof -
  assume "length (filter P xs) = 1"
  then have "filter P xs \<noteq> []" by auto
  then have "hd (filter P xs) \<in> set (filter P xs)" by (rule hd_in_set)
  then have "hd (filter P xs) \<in> set xs" by simp
  then show ?thesis by (rule size_less_dsum)
qed

lemma csum_update_le: "csum (AList.update k v xs) \<le> csum xs + Suc (size v)"
  by (induction xs) auto

lemma csum_insert_index: "csum (insert_index i k v xs) = csum xs + Suc (size v)"
  by (induction xs) (auto split: option.splits)

lemma csum_put_le: "csum (put k v xs) \<le> csum xs + Suc (size v)"
  using csum_update_le [of k v xs]
  by (simp add: put_def csum_insert_index split: option.splits)

lemma assign2_Cons:
  "assign2 object (kv # source) = assign2 (put (fst kv) (snd kv) object) source"
  by (simp add: assign2_def)

lemma assign2_Nil [simp]: "assign2 object [] = object"
  by (simp add: assign2_def)

lemma csum_assign2_le: "csum (assign2 object source) \<le> csum object + csum source"
proof (induction source arbitrary: object)
  case Nil
  then show ?case by simp
next
  case (Cons kv source)
  have "csum (assign2 (put (fst kv) (snd kv) object) source)
          \<le> csum (put (fst kv) (snd kv) object) + csum source"
    using Cons.IH .
  also have "\<dots> \<le> csum object + Suc (size (snd kv)) + csum source"
    using csum_put_le [of "fst kv" "snd kv" object] by simp
  finally have "csum (assign2 (put (fst kv) (snd kv) object) source)
          \<le> csum object + Suc (size (snd kv)) + csum source" .
  then show ?case by (simp add: assign2_Cons)
qed

lemma csum_children_less: "csum (children d) + 2 < size d"
proof (cases d)
  case (Desc t p r cs its alts ms ds)
  have "csum cs \<le> size_list (size_prod (\<lambda>x. 0) size) cs"
    by (induction cs) auto
  moreover have "0 < size_option (size_list size) its" by (cases its) simp_all
  moreover have "0 < size_option (size_list size) alts" by (cases alts) simp_all
  ultimately show ?thesis using Desc by simp
qed

lemma csum_foldl_assign2_le:
  "csum (foldl assign2 object (map children ds)) \<le> csum object + dsum ds"
proof (induction ds arbitrary: object)
  case Nil
  then show ?case by simp
next
  case (Cons d ds)
  have "csum (foldl assign2 (assign2 object (children d)) (map children ds))
          \<le> csum (assign2 object (children d)) + dsum ds"
    using Cons.IH .
  also have "\<dots> \<le> csum object + csum (children d) + dsum ds"
    using csum_assign2_le [of object "children d"] by simp
  also have "\<dots> \<le> csum object + size d + dsum ds"
    using csum_children_less [of d] by simp
  finally have "csum (foldl assign2 (assign2 object (children d)) (map children ds))
          \<le> csum object + size d + dsum ds" .
  then show ?case by simp
qed

lemma csum_assign_le: "csum (assign (map children ds)) \<le> dsum ds"
proof (cases ds)
  case Nil
  then show ?thesis by (simp add: assign_def)
next
  case (Cons d rest)
  have "csum (foldl assign2 (children d) (map children rest)) \<le> csum (children d) + dsum rest"
    by (rule csum_foldl_assign2_le)
  then show ?thesis using Cons csum_children_less [of d] by (simp add: assign_def)
qed

lemma csum_first_meta_args: "first_meta_args d = Some as \<Longrightarrow> csum as < size d"
proof (cases d)
  case (Desc t p r cs its alts ms ds)
  assume a: "first_meta_args d = Some as"
  then obtain m rest where ms: "ms = m # rest" and ma: "meta_args m = Some as"
    using Desc by (auto simp: first_meta_args_def split: list.splits)
  have "csum as \<le> size_list (size_prod (\<lambda>x. 0) size) as"
    by (induction as) auto
  moreover have "size_list (size_prod (\<lambda>x. 0) size) as < size m"
    using ma by (cases m) simp
  ultimately show ?thesis using Desc ms by simp
qed

lemma dsum_size_list: "size_list size ds = dsum ds"
  by (induction ds) auto

lemma dsum_items_less: "items d = Some its \<Longrightarrow> dsum its + 2 < size d"
  by (cases d; cases "alternatives d") (auto simp: dsum_size_list)

lemma dsum_alternatives_less: "alternatives d = Some alts \<Longrightarrow> dsum alts + 2 < size d"
  by (cases d; cases "items d") (auto simp: dsum_size_list)

subsection \<open>The translator (lines 46-179)\<close>

text \<open>
  One mutually recursive definition, as in the source:
  \<^item> \<open>descToType\<close> is lines 46-111; its \<^verbatim>\<open>type\<close> table is the chain of tests on
    \<open>type desc\<close>, and a kind outside the table calls \<^verbatim>\<open>undefined\<close>, a \<^verbatim>\<open>TypeError\<close>; so
    does \<^verbatim>\<open>desc.items.filter\<close> on a description without \<^verbatim>\<open>items\<close>;
  \<^item> \<open>object_input_fields\<close> is the \<^verbatim>\<open>omitBy(mapValues(desc.children, ...), isNull)\<close> of
    lines 67-70;
  \<^item> \<open>map_descToType\<close> is \<^verbatim>\<open>items.map((item) => descToType(item, isInput))\<close>, line 114;
  \<^item> \<open>makeArrayAlternativeType\<close> is lines 113-141;
  \<^item> \<open>descToArgs\<close> is lines 145-153 and \<open>args_fields\<close> its \<^verbatim>\<open>mapValues\<close>;
  \<^item> \<open>descsToFields\<close> is lines 170-179 (\<^verbatim>\<open>descToType(desc)\<close> leaves \<^verbatim>\<open>isInput\<close>
    undefined, which is false); its second parameter is never read.
  An argument object is evaluated before the constructor it is passed to runs, so the
  reference of a node is taken after its fields are built.
\<close>

function descToType :: "desc \<Rightarrow> bool \<Rightarrow> tstate \<Rightarrow> error + (gtype \<times> tstate)"
  and object_input_fields ::
    "(string \<times> desc) list \<Rightarrow> tstate \<Rightarrow> error + ((string \<times> field) list \<times> tstate)"
  and map_descToType :: "desc list \<Rightarrow> bool \<Rightarrow> tstate \<Rightarrow> error + (gtype list \<times> tstate)"
  and makeArrayAlternativeType ::
    "bool \<Rightarrow> string \<Rightarrow> desc \<Rightarrow> desc list \<Rightarrow> tstate \<Rightarrow> error + (gtype \<times> tstate)"
  and descToArgs :: "desc \<Rightarrow> tstate \<Rightarrow> error + ((string \<times> gtype) list option \<times> tstate)"
  and args_fields ::
    "(string \<times> desc) list \<Rightarrow> tstate \<Rightarrow> error + ((string \<times> gtype) list \<times> tstate)"
  and descsToFields ::
    "(string \<times> desc) list \<Rightarrow> tstate \<Rightarrow> error + ((string \<times> field) list \<times> tstate)"
where
  "descToType desc isInput st =
     (let (typeName, st1) = typeName_of desc isInput st;
          required = (isInput \<and> presence desc ''required'');
          result =
           (if type desc = ''boolean'' then Inr (GraphQLBoolean, st1)
            else if type desc = ''date'' then Inr (GraphQLString, st1)
            else if type desc = ''string'' then Inr (GraphQLString, st1)
            else if type desc = ''number'' then
              Inr (if ''integer'' \<in> set (rules desc) then GraphQLInt else GraphQLFloat, st1)
            else if type desc = ''object'' then
              (case cachedTypes st1 typeName of
                 Some cached \<Rightarrow> Inr (cached, st1)
               | None \<Rightarrow>
                  (case (if isInput then object_input_fields (children desc) st1
                         else descsToFields (children desc) st1) of
                     Inl e \<Rightarrow> Inl e
                   | Inr (flds, st2) \<Rightarrow>
                       (case (if isInput
                              then new_GraphQLInputObjectType typeName (description desc) flds st2
                              else new_GraphQLObjectType typeName (description desc) flds st2) of
                          Inl e \<Rightarrow> Inl e
                        | Inr (ty, st3) \<Rightarrow>
                            Inr (ty, st3\<lparr>cachedTypes := (cachedTypes st3)(typeName \<mapsto> ty)\<rparr>))))
            else if type desc = ''array'' then
              (case items desc of
                 None \<Rightarrow> Inl TypeError
               | Some its \<Rightarrow>
                  (let kept = filter not_forbidden its in
                   if length kept = 1 then
                     (case descToType (hd kept) isInput st1 of
                        Inl e \<Rightarrow> Inl e
                      | Inr (ty, st2) \<Rightarrow>
                          Inr (new_GraphQLList ty (cache_if_absent typeName ty st2)))
                   else
                     (let (typeName', st2) = compositeName kept isInput st1 in
                      case makeArrayAlternativeType isInput typeName' desc kept st2 of
                        Inl e \<Rightarrow> Inl e
                      | Inr (ty, st3) \<Rightarrow>
                          Inr (new_GraphQLList ty (cache_if_absent typeName' ty st3)))))
            else if type desc = ''alternatives'' then
              (case alternatives desc of
                 None \<Rightarrow> Inl TypeError
               | Some alts \<Rightarrow>
                  (case makeArrayAlternativeType isInput typeName desc
                          (filter not_forbidden alts) st1 of
                     Inl e \<Rightarrow> Inl e
                   | Inr (ty, st2) \<Rightarrow> Inr (ty, cache_if_absent typeName ty st2)))
            else Inl TypeError)
      in wrap_required required result)"
| "object_input_fields [] st = Inr ([], st)"
| "object_input_fields ((k, child) # rest) st =
     (if presence child ''forbidden'' then object_input_fields rest st
      else case descToType child True st of
             Inl e \<Rightarrow> Inl e
           | Inr (ty, st1) \<Rightarrow>
               (case object_input_fields rest st1 of
                  Inl e \<Rightarrow> Inl e
                | Inr (fs, st2) \<Rightarrow> Inr ((k, InputField ty) # fs, st2)))"
| "map_descToType [] isInput st = Inr ([], st)"
| "map_descToType (item # rest) isInput st =
     (case descToType item isInput st of
        Inl e \<Rightarrow> Inl e
      | Inr (ty, st1) \<Rightarrow>
          (case map_descToType rest isInput st1 of
             Inl e \<Rightarrow> Inl e
           | Inr (tys, st2) \<Rightarrow> Inr (ty # tys, st2)))"
| "makeArrayAlternativeType isInput typeName desc its st =
     (case map_descToType its isInput st of
        Inl e \<Rightarrow> Inl e
      | Inr (types, st1) \<Rightarrow>
          (case cachedTypes st1 typeName of
             Some cached \<Rightarrow> Inr (cached, st1)
           | None \<Rightarrow>
               if isInput then
                 (case descsToFields (assign (map children its)) st1 of
                    Inl e \<Rightarrow> Inl e
                  | Inr (flds, st2) \<Rightarrow>
                      new_GraphQLInputObjectType typeName (description desc) flds st2)
               else new_GraphQLUnionType typeName (description desc) types its st1))"
| "descToArgs desc st =
     (case first_meta_args desc of
        None \<Rightarrow> Inr (None, st)
      | Some argsSchema \<Rightarrow>
          (case args_fields argsSchema st of
             Inl e \<Rightarrow> Inl e
           | Inr (as, st1) \<Rightarrow> Inr (Some as, st1)))"
| "args_fields [] st = Inr ([], st)"
| "args_fields ((k, schema) # rest) st =
     (if presence schema ''forbidden'' then args_fields rest st
      else case descToType schema True st of
             Inl e \<Rightarrow> Inl e
           | Inr (ty, st1) \<Rightarrow>
               (case args_fields rest st1 of
                  Inl e \<Rightarrow> Inl e
                | Inr (as, st2) \<Rightarrow> Inr ((k, ty) # as, st2)))"
| "descsToFields [] st = Inr ([], st)"
| "descsToFields ((k, desc) # rest) st =
     (if presence desc ''forbidden'' then descsToFields rest st
      else case descToType desc False st of
             Inl e \<Rightarrow> Inl e
           | Inr (ty, st1) \<Rightarrow>
               (case descToArgs desc st1 of
                  Inl e \<Rightarrow> Inl e
                | Inr (args, st2) \<Rightarrow>
                    (case descsToFields rest st2 of
                       Inl e \<Rightarrow> Inl e
                     | Inr (fs, st3) \<Rightarrow>
                         Inr ((k, Field ty args
                                   (case description desc of None \<Rightarrow> [] | Some s \<Rightarrow> s)
                                   desc) # fs, st3))))"
  by pat_completeness auto
termination
  apply (relation "measure (\<lambda>x. case x of
      Inl (Inl (desc, isInput, st)) \<Rightarrow> size desc
    | Inl (Inr (Inl (cs, st))) \<Rightarrow> csum cs
    | Inl (Inr (Inr (ds, isInput, st))) \<Rightarrow> dsum ds
    | Inr (Inl (Inl (isInput, typeName, desc, its, st))) \<Rightarrow> dsum its + 2
    | Inr (Inl (Inr (desc, st))) \<Rightarrow> size desc
    | Inr (Inr (Inl (as, st))) \<Rightarrow> csum as
    | Inr (Inr (Inr (cs, st))) \<Rightarrow> csum cs + 1)")
                   apply simp_all
  subgoal for desc using csum_children_less [of desc] by simp
  subgoal for desc using csum_children_less [of desc] by simp
  subgoal for desc isInput st x xa y xb x2
    using size_hd_filter [of not_forbidden x2] dsum_items_less [of desc x2] by simp
  subgoal for desc isInput st x xa y xb x2
    using dsum_filter_le [of not_forbidden x2] dsum_items_less [of desc x2] by simp
  subgoal for desc isInput st x xa y xb x2
    using dsum_filter_le [of not_forbidden x2] dsum_alternatives_less [of desc x2] by simp
  subgoal for isInput typeName its using csum_assign_le [of its] by simp
  subgoal for desc x2 by (rule csum_first_meta_args)
  done

declare descToType.simps [simp del]
declare makeArrayAlternativeType.simps [simp del]
declare descToArgs.simps [simp del]

text \<open>
  Lines 182-197, the exported function. The two root types are not cached, and their
  names pass the constructor's check. \<open>newGraphQLSchema\<close> stands for the constructor
  \<^verbatim>\<open>GraphQLSchema\<close> of graphql-js, which throws unless \<^verbatim>\<open>attrs\<close> holds a well-formed type
  graph with a query root.
\<close>

definition joiql ::
  "(attrs \<Rightarrow> error + 's) \<Rightarrow> jois \<Rightarrow> tstate \<Rightarrow> error + ('s \<times> tstate)" where
  "joiql newGraphQLSchema js st =
     (case (case query js of
              None \<Rightarrow> Inr (None, st)
            | Some q \<Rightarrow>
                (case descsToFields q st of
                   Inl e \<Rightarrow> Inl e
                 | Inr (flds, st1) \<Rightarrow>
                     (case new_GraphQLObjectType ''RootQueryType'' None flds st1 of
                        Inl e \<Rightarrow> Inl e
                      | Inr (ty, st2) \<Rightarrow> Inr (Some ty, st2)))) of
        Inl e \<Rightarrow> Inl e
      | Inr (qt, st2) \<Rightarrow>
          (case (case mutation js of
                   None \<Rightarrow> Inr (None, st2)
                 | Some m \<Rightarrow>
                     (case descsToFields m st2 of
                        Inl e \<Rightarrow> Inl e
                      | Inr (flds, st3) \<Rightarrow>
                          (case new_GraphQLObjectType ''RootMutationType'' None flds st3 of
                             Inl e \<Rightarrow> Inl e
                           | Inr (ty, st4) \<Rightarrow> Inr (Some ty, st4)))) of
             Inl e \<Rightarrow> Inl e
           | Inr (mt, st4) \<Rightarrow>
               (case newGraphQLSchema \<lparr>attrs_query = qt, attrs_mutation = mt\<rparr> of
                  Inl e \<Rightarrow> Inl e
                | Inr schema \<Rightarrow> Inr (schema, st4))))"

subsection \<open>Run-time closures\<close>

text \<open>
  Lines 131-138, \<^verbatim>\<open>resolveType\<close> of a union: \<^verbatim>\<open>map\<close> gives, for every item, either
  \<^verbatim>\<open>types[i]\<close> or a falsy value (\<open>None\<close>), and \<^verbatim>\<open>find\<close> without a predicate returns the
  first truthy entry.
\<close>

definition item_matches :: "desc \<Rightarrow> jsval \<Rightarrow> bool" where
  "item_matches item val =
     (case first_meta_isTypeOf item of
        Some isTypeOf \<Rightarrow> isTypeOf val
      | None \<Rightarrow> keys val = map fst (children item))"

definition nth_opt :: "'a list \<Rightarrow> nat \<Rightarrow> 'a option" where
  "nth_opt xs i = (if i < length xs then Some (xs ! i) else None)"

definition resolveType :: "desc list \<Rightarrow> gtype list \<Rightarrow> jsval \<Rightarrow> gtype option" where
  "resolveType its types val =
     (case find (\<lambda>r. r \<noteq> None)
             (map (\<lambda>(item, i). if item_matches item val then nth_opt types i else None)
                  (zip its [0..<length its])) of
        None \<Rightarrow> None
      | Some r \<Rightarrow> r)"






subsection \<open>Notions the statements use\<close>

text \<open>\<open>cache_le st st'\<close>: every entry of the cache of \<open>st\<close> is still there in \<open>st'\<close>,
  with the same node.\<close>

definition cache_le :: "tstate \<Rightarrow> tstate \<Rightarrow> bool" where
  "cache_le st st' = (cachedTypes st \<subseteq>\<^sub>m cachedTypes st')"

text \<open>The node of a result, when there is one.\<close>

definition translated :: "error + (gtype \<times> tstate) \<Rightarrow> gtype option" where
  "translated r = (case r of Inl e \<Rightarrow> None | Inr (ty, st) \<Rightarrow> Some ty)"

text \<open>The same description without its presence flag.\<close>

definition without_presence :: "desc \<Rightarrow> desc" where
  "without_presence d =
     Desc (type d) None (rules d) (children d) (items d) (alternatives d) (meta d) (description d)"

text \<open>
  The same description without its forbidden children, items and branches; every other
  part, and every element that is kept, is unchanged.
\<close>

definition drop_forbidden :: "desc \<Rightarrow> desc" where
  "drop_forbidden d =
     Desc (type d) (flags_presence d) (rules d)
       (filter (\<lambda>kd. not_forbidden (snd kd)) (children d))
       (map_option (filter not_forbidden) (items d))
       (map_option (filter not_forbidden) (alternatives d))
       (meta d) (description d)"

text \<open>The name of a named node.\<close>

definition type_name :: "gtype \<Rightarrow> string option" where
  "type_name ty =
     (case ty of
        GraphQLObjectType r n d fs \<Rightarrow> Some n
      | GraphQLInputObjectType r n d fs \<Rightarrow> Some n
      | GraphQLUnionType r n d tys its \<Rightarrow> Some n
      | _ \<Rightarrow> None)"

text \<open>The field mapping of an object node, read through \<^verbatim>\<open>GraphQLNonNull\<close>.\<close>

fun type_fields :: "gtype \<Rightarrow> (string \<times> field) list" where
  "type_fields (GraphQLObjectType r n d fs) = fs"
| "type_fields (GraphQLInputObjectType r n d fs) = fs"
| "type_fields (GraphQLNonNull r ty) = type_fields ty"
| "type_fields ty = []"

text \<open>The description a field descriptor's resolver closes over.\<close>

definition field_source :: "field \<Rightarrow> desc option" where
  "field_source f = (case f of InputField ty \<Rightarrow> None | Field ty args descr d \<Rightarrow> Some d)"

text \<open>The \<^verbatim>\<open>resolveType\<close> closure of a union node, applied to a value.\<close>

definition union_resolveType :: "gtype \<Rightarrow> jsval \<Rightarrow> gtype option" where
  "union_resolveType ty val =
     (case ty of GraphQLUnionType r n d types its \<Rightarrow> resolveType its types val | _ \<Rightarrow> None)"

text \<open>The list \<^verbatim>\<open>map(items, ...)\<close> builds inside \<^verbatim>\<open>resolveType\<close>.\<close>

definition resolve_candidates :: "desc list \<Rightarrow> gtype list \<Rightarrow> jsval \<Rightarrow> gtype option list" where
  "resolve_candidates its types val =
     map (\<lambda>(item, i). if item_matches item val then nth_opt types i else None)
       (zip its [0..<length its])"

text \<open>The node lines 64-77 build for an object description, with reference \<open>r\<close>.\<close>

definition object_node ::
  "bool \<Rightarrow> string \<Rightarrow> string option \<Rightarrow> (string \<times> field) list \<Rightarrow> nat \<Rightarrow> gtype" where
  "object_node isInput n descr flds r =
     (if isInput then GraphQLInputObjectType r n descr flds else GraphQLObjectType r n descr flds)"

text \<open>The type of a description of one of the four scalar kinds.\<close>

definition scalar_type :: "desc \<Rightarrow> gtype" where
  "scalar_type d =
     (if type d = ''boolean'' then GraphQLBoolean
      else if type d = ''number''
      then (if ''integer'' \<in> set (rules d) then GraphQLInt else GraphQLFloat)
      else GraphQLString)"

subsection \<open>Example descriptions\<close>

text \<open>The state of a fresh process: nothing cached, both counters at zero.\<close>

definition st0 :: tstate where
  "st0 = \<lparr>cachedTypes = Map.empty, idCounter = 0, nextRef = 0\<rparr>"

text \<open>
  \<^verbatim>\<open>Joi.string()\<close>, \<^verbatim>\<open>Joi.number()\<close>, \<^verbatim>\<open>Joi.boolean().forbidden()\<close>,
  \<^verbatim>\<open>Joi.string().required()\<close>, \<^verbatim>\<open>Joi.any()\<close>, and an array description that lacks the
  \<^verbatim>\<open>items\<close> property (\<^verbatim>\<open>Joi.array()\<close>).
\<close>

definition string_desc :: desc where
  "string_desc = Desc ''string'' None [] [] None None [] None"

definition number_desc :: desc where
  "number_desc = Desc ''number'' None [] [] None None [] None"

definition forbidden_boolean :: desc where
  "forbidden_boolean = Desc ''boolean'' (Some ''forbidden'') [] [] None None [] None"

definition required_string :: desc where
  "required_string = Desc ''string'' (Some ''required'') [] [] None None [] None"

definition any_desc :: desc where
  "any_desc = Desc ''any'' None [] [] None None [] None"

definition array_without_items :: desc where
  "array_without_items = Desc ''array'' None [] [] None None [] None"

text \<open>
  \<^verbatim>\<open>Joi.array().items(Joi.boolean().forbidden(), Joi.string()).meta({ name: 'Tags' })\<close>, and
  an object description that carries the same name.
\<close>

definition tags_array :: desc where
  "tags_array = Desc ''array'' None [] [] (Some [forbidden_boolean, string_desc]) None
     [Meta (Some ''Tags'') None None None] None"

definition tag_object :: desc where
  "tag_object = Desc ''object'' None [] [(''label'', string_desc)] None None
     [Meta (Some ''Tags'') None None None] None"

text \<open>
  The state the translation of \<open>tags_array\<close> in output position from \<open>st0\<close> leaves, and
  \<^verbatim>\<open>Joi.number().meta({ name: 'Tags' })\<close>.
\<close>

definition tags_state :: tstate where
  "tags_state = \<lparr>cachedTypes = [''Tags'' \<mapsto> GraphQLString], idCounter = 1, nextRef = 1\<rparr>"

definition tagged_number :: desc where
  "tagged_number = Desc ''number'' None [] [] None None [Meta (Some ''Tags'') None None None] None"

text \<open>
  \<^verbatim>\<open>Joi.array().items(Joi.string().required()).meta({ name: 'Names' })\<close>, the state its
  translation in input position from \<open>st0\<close> leaves, and a required object description of
  the same name.
\<close>

definition names_array :: desc where
  "names_array = Desc ''array'' None [] [] (Some [required_string]) None
     [Meta (Some ''Names'') None None None] None"

definition names_state :: tstate where
  "names_state = \<lparr>cachedTypes = [''InputNames'' \<mapsto> GraphQLNonNull 0 GraphQLString],
     idCounter = 1, nextRef = 2\<rparr>"

definition names_object :: desc where
  "names_object = Desc ''object'' (Some ''required'') [] [(''first'', string_desc)] None None
     [Meta (Some ''Names'') None None None] None"

text \<open>
  \<^verbatim>\<open>Joi.array().items(Joi.boolean().forbidden())\<close>: no item is left, and the composite name
  is the empty string.
\<close>

definition forbidden_items :: desc where
  "forbidden_items = Desc ''array'' None [] [] (Some [forbidden_boolean]) None [] None"

text \<open>\<^verbatim>\<open>Joi.string().meta({ args: { id: Joi.number() }, resolve: () => 'world' })\<close>\<close>

definition hello_resolver :: resolver where
  "hello_resolver source args root opts = Inr (JStr ''world'')"

definition hello_desc :: desc where
  "hello_desc = Desc ''string'' None [] [] None None
     [Meta None (Some [(''id'', number_desc)]) (Some hello_resolver) None] None"



text \<open>
  Two object descriptions with the same children, as members of an alternatives
  description; the second carries \<^verbatim>\<open>isTypeOf: (v) => v.kind === 'dog'\<close>. The nodes and the
  state are what their translation from \<open>st0\<close> gives.
\<close>

definition is_dog :: "jsval \<Rightarrow> bool" where
  "is_dog v = (case v of JObj kvs \<Rightarrow> map_of kvs ''kind'' = Some (JStr ''dog'') | _ \<Rightarrow> False)"

definition cat_desc :: desc where
  "cat_desc = Desc ''object'' None [] [(''name'', string_desc), (''kind'', string_desc)] None None
     [Meta (Some ''Cat'') None None None] None"

definition dog_desc :: desc where
  "dog_desc = Desc ''object'' None [] [(''name'', string_desc), (''kind'', string_desc)] None None
     [Meta (Some ''Dog'') None None (Some is_dog)] None"

definition pets_desc :: desc where
  "pets_desc = Desc ''alternatives'' None [] [] None (Some [cat_desc, dog_desc]) [] None"

definition pet_fields :: "(string \<times> field) list" where
  "pet_fields = [(''name'', Field GraphQLString None [] string_desc),
                 (''kind'', Field GraphQLString None [] string_desc)]"

definition cat_type :: gtype where
  "cat_type = GraphQLObjectType 0 ''Cat'' None pet_fields"

definition dog_type :: gtype where
  "dog_type = GraphQLObjectType 1 ''Dog'' None pet_fields"

definition pets_union :: gtype where
  "pets_union = GraphQLUnionType 2 ''Anon1'' None [cat_type, dog_type] [cat_desc, dog_desc]"

definition pets_state :: tstate where
  "pets_state = \<lparr>cachedTypes = [''Cat'' \<mapsto> cat_type, ''Dog'' \<mapsto> dog_type],
     idCounter = 4, nextRef = 2\<rparr>"

text \<open>
  Two object descriptions without annotations, \<^verbatim>\<open>Joi.object({ x: Joi.number() })\<close> and
  \<^verbatim>\<open>Joi.object({ radius: Joi.number() })\<close>; the alternatives of the two, and an array of
  \<open>cat_desc\<close> and the first, with the nodes and states their translation in output position
  from \<open>st0\<close> gives.
\<close>

definition point_desc :: desc where
  "point_desc = Desc ''object'' None [] [(''x'', number_desc)] None None [] None"

definition circle_desc :: desc where
  "circle_desc = Desc ''object'' None [] [(''radius'', number_desc)] None None [] None"

definition shapes_desc :: desc where
  "shapes_desc = Desc ''alternatives'' None [] [] None (Some [point_desc, circle_desc]) [] None"

definition point_type :: "nat \<Rightarrow> string \<Rightarrow> gtype" where
  "point_type r n = GraphQLObjectType r n None [(''x'', Field GraphQLFloat None [] number_desc)]"

definition circle_type :: "nat \<Rightarrow> string \<Rightarrow> gtype" where
  "circle_type r n =
     GraphQLObjectType r n None [(''radius'', Field GraphQLFloat None [] number_desc)]"

definition shapes_union :: gtype where
  "shapes_union = GraphQLUnionType 2 ''Anon1'' None
     [point_type 0 ''Anon2'', circle_type 1 ''Anon4''] [point_desc, circle_desc]"

definition shapes_state :: tstate where
  "shapes_state = \<lparr>cachedTypes = [''Anon2'' \<mapsto> point_type 0 ''Anon2'',
     ''Anon4'' \<mapsto> circle_type 1 ''Anon4'', ''Anon1'' \<mapsto> shapes_union],
     idCounter = 5, nextRef = 3\<rparr>"

definition cat_or_point :: desc where
  "cat_or_point = Desc ''array'' None [] [] (Some [cat_desc, point_desc]) None [] None"

definition cat_or_point_union :: gtype where
  "cat_or_point_union = GraphQLUnionType 2 ''ObjectOrObject'' None
     [cat_type, point_type 1 ''Anon4''] [cat_desc, point_desc]"

definition cat_or_point_state :: tstate where
  "cat_or_point_state = \<lparr>cachedTypes = [''Cat'' \<mapsto> cat_type,
     ''Anon4'' \<mapsto> point_type 1 ''Anon4'', ''ObjectOrObject'' \<mapsto> cat_or_point_union],
     idCounter = 5, nextRef = 4\<rparr>"







text \<open>
  An object description with a forbidden boolean child between two others, with the node
  and the state its translation in output position from \<open>st0\<close> gives; then a string and
  another object that carry its name.
\<close>

definition person_desc :: desc where
  "person_desc = Desc ''object'' None []
     [(''name'', string_desc), (''secret'', forbidden_boolean), (''age'', number_desc)] None None
     [Meta (Some ''Person'') None None None] None"

definition person_type :: gtype where
  "person_type = GraphQLObjectType 0 ''Person'' None
     [(''name'', Field GraphQLString None [] string_desc),
      (''age'', Field GraphQLFloat None [] number_desc)]"

definition person_state :: tstate where
  "person_state = \<lparr>cachedTypes = [''Person'' \<mapsto> person_type], idCounter = 2, nextRef = 1\<rparr>"

definition named_string :: desc where
  "named_string = Desc ''string'' None [] [] None None [Meta (Some ''Person'') None None None] None"

definition contact_desc :: desc where
  "contact_desc = Desc ''object'' None [] [(''email'', string_desc)] None None
     [Meta (Some ''Person'') None None None] None"

text \<open>
  A third object description of that name, with a forbidden child \<^verbatim>\<open>name\<close> and a child
  \<^verbatim>\<open>email\<close>, and an array of strings of that name.
\<close>

definition person_list :: desc where
  "person_list = Desc ''array'' None [] [] (Some [string_desc]) None
     [Meta (Some ''Person'') None None None] None"

definition masked_contact :: desc where
  "masked_contact = Desc ''object'' None []
     [(''name'', forbidden_boolean), (''email'', string_desc)] None None
     [Meta (Some ''Person'') None None None] None"

text \<open>
  An object description nested in an object description of the same name, with the nodes
  and the state the translation of the outer one in output position from \<open>st0\<close> gives.
\<close>

definition inner_node :: desc where
  "inner_node = Desc ''object'' None [] [(''value'', string_desc)] None None
     [Meta (Some ''Node'') None None None] None"

definition outer_node :: desc where
  "outer_node = Desc ''object'' None [] [(''next'', inner_node)] None None
     [Meta (Some ''Node'') None None None] None"

definition inner_type :: gtype where
  "inner_type = GraphQLObjectType 0 ''Node'' None
     [(''value'', Field GraphQLString None [] string_desc)]"

definition outer_type :: gtype where
  "outer_type = GraphQLObjectType 1 ''Node'' None [(''next'', Field inner_type None [] inner_node)]"

definition node_state :: tstate where
  "node_state = \<lparr>cachedTypes = [''Node'' \<mapsto> outer_type], idCounter = 1, nextRef = 2\<rparr>"

section \<open>Basic facts\<close>

subsection \<open>Unfolding\<close>

text \<open>The definitions a concrete translation unfolds, and those of the examples.\<close>

lemmas eval_defs = typeName_of_def first_meta_name_def first_meta_args_def
  first_meta_isTypeOf_def first_meta_resolve_def uniqueId_def input_prefix_def
  show_nat.simps digit_char_def presence_def not_forbidden_def new_ref_def
  cache_if_absent_def compositeName_def item_name_def meta_dot_name_def capitalize_def
  to_lower_char_def to_upper_char_def wrap_required_def Let_def
  new_GraphQLObjectType_def new_GraphQLInputObjectType_def new_GraphQLUnionType_def
  new_GraphQLList_def new_GraphQLNonNull_def is_NonNull_def valid_type_name_def
  name_start_def name_continue_def


lemmas pets_defs = pets_desc_def cat_desc_def dog_desc_def cat_type_def dog_type_def
  pets_union_def pet_fields_def is_dog_def pets_state_def string_desc_def number_desc_def st0_def

lemmas shapes_defs = point_desc_def circle_desc_def shapes_desc_def point_type_def
  circle_type_def shapes_union_def shapes_state_def cat_or_point_def cat_or_point_union_def
  cat_or_point_state_def

lemmas names_defs = names_array_def names_state_def names_object_def required_string_def
  string_desc_def st0_def

lemmas tags_defs = tags_array_def tags_state_def tag_object_def tagged_number_def
  forbidden_boolean_def string_desc_def st0_def


lemmas person_defs = person_desc_def person_type_def person_state_def string_desc_def
  number_desc_def forbidden_boolean_def st0_def

lemmas node_defs = named_string_def contact_desc_def masked_contact_def person_list_def
  inner_node_def outer_node_def
  inner_type_def outer_type_def node_state_def

subsection \<open>How the helpers change the cache\<close>

lemma cache_le_refl [simp]: "cache_le st st"
  by (simp add: cache_le_def)

lemma cache_le_trans: "cache_le a b \<Longrightarrow> cache_le b c \<Longrightarrow> cache_le a c"
  unfolding cache_le_def by (rule map_le_trans)

lemma cachedTypes_uniqueId [simp]: "cachedTypes (snd (uniqueId st)) = cachedTypes st"
  by (simp add: uniqueId_def)

lemma cachedTypes_typeName_of [simp]: "cachedTypes (snd (typeName_of d i st)) = cachedTypes st"
  by (simp add: typeName_of_def uniqueId_def split: option.splits prod.splits)

lemma cachedTypes_new_ref [simp]: "cachedTypes (new_ref st) = cachedTypes st"
  by (simp add: new_ref_def)

lemma cachedTypes_item_name [simp]: "cachedTypes (snd (item_name d i st)) = cachedTypes st"
  by (simp add: item_name_def uniqueId_def Let_def split: prod.splits)

lemma cachedTypes_item_names [simp]: "cachedTypes (snd (item_names ds i st)) = cachedTypes st"
proof (induction ds arbitrary: st)
  case Nil
  then show ?case by simp
next
  case (Cons d ds)
  have "cachedTypes (snd (item_names ds i (snd (item_name d i st)))) = cachedTypes st"
    using Cons.IH [of "snd (item_name d i st)"] by simp
  then show ?case by (simp add: split_beta)
qed

lemma cachedTypes_compositeName [simp]: "cachedTypes (snd (compositeName ds i st)) = cachedTypes st"
  by (simp add: compositeName_def split_beta)

lemma cache_le_cache_if_absent: "cache_le st (cache_if_absent n t st)"
  by (auto simp: cache_le_def cache_if_absent_def map_le_def)

lemma cache_le_new_ref [simp]: "cache_le a (new_ref b) = cache_le a b"
  by (simp add: cache_le_def)

lemma cache_le_eqI: "cachedTypes st' = cachedTypes st \<Longrightarrow> cache_le st st'"
  by (simp add: cache_le_def)

lemma cache_le_store: "cache_le st st2 \<Longrightarrow> cachedTypes st n = None \<Longrightarrow>
   cache_le st (st3\<lparr>cachedTypes := (cachedTypes st2)(n \<mapsto> t)\<rparr>)"
  by (auto simp: cache_le_def map_le_def)


subsection \<open>The translator, kind by kind\<close>

lemma descToType_object_cached:
  assumes "type desc = ''object''" and "typeName_of desc isInput st = (typeName, st1)"
    and "cachedTypes st1 typeName = Some cached"
  shows "descToType desc isInput st =
     wrap_required (isInput \<and> presence desc ''required'') (Inr (cached, st1))"
  using assms
  by (simp add: descToType.simps [of desc isInput st] Let_def)

lemma descToType_object_new:
  assumes "type desc = ''object''" and "typeName_of desc isInput st = (typeName, st1)"
    and "cachedTypes st1 typeName = None"
  shows "descToType desc isInput st =
     wrap_required (isInput \<and> presence desc ''required'')
       (case (if isInput then object_input_fields (children desc) st1
              else descsToFields (children desc) st1) of
          Inl e \<Rightarrow> Inl e
        | Inr (flds, st2) \<Rightarrow>
            if valid_type_name typeName
            then Inr (object_node isInput typeName (description desc) flds (nextRef st2),
                      (new_ref st2)\<lparr>cachedTypes := (cachedTypes st2)(typeName \<mapsto>
                         object_node isInput typeName (description desc) flds (nextRef st2))\<rparr>)
            else Inl InvariantViolation)"
  using assms
  by (simp add: descToType.simps [of desc isInput st] Let_def new_ref_def object_node_def
      new_GraphQLObjectType_def new_GraphQLInputObjectType_def
      split: option.splits sum.splits prod.splits)

lemma descToType_array_one:
  assumes "type desc = ''array''" and "typeName_of desc isInput st = (typeName, st1)"
    and "items desc = Some its" and "filter not_forbidden its = [item]"
  shows "descToType desc isInput st =
     wrap_required (isInput \<and> presence desc ''required'')
       (case descToType item isInput st1 of
          Inl e \<Rightarrow> Inl e
        | Inr (ty, st2) \<Rightarrow>
            Inr (GraphQLList (nextRef (cache_if_absent typeName ty st2)) ty,
                 new_ref (cache_if_absent typeName ty st2)))"
  using assms
  by (simp add: descToType.simps [of desc isInput st] Let_def new_GraphQLList_def
      split: option.splits sum.splits prod.splits)

lemma descToType_array_many:
  assumes "type desc = ''array''" and "typeName_of desc isInput st = (typeName, st1)"
    and "items desc = Some its" and "length (filter not_forbidden its) \<noteq> 1"
    and "compositeName (filter not_forbidden its) isInput st1 = (typeName', st2)"
  shows "descToType desc isInput st =
     wrap_required (isInput \<and> presence desc ''required'')
       (case makeArrayAlternativeType isInput typeName' desc (filter not_forbidden its) st2 of
          Inl e \<Rightarrow> Inl e
        | Inr (ty, st3) \<Rightarrow>
            Inr (GraphQLList (nextRef (cache_if_absent typeName' ty st3)) ty,
                 new_ref (cache_if_absent typeName' ty st3)))"
  using assms
  by (simp add: descToType.simps [of desc isInput st] Let_def new_GraphQLList_def
      split: option.splits sum.splits prod.splits)

lemma descToType_array_none:
  assumes "type desc = ''array''" and "items desc = None"
  shows "descToType desc isInput st = Inl TypeError"
  using assms
  by (simp add: descToType.simps [of desc isInput st] Let_def wrap_required_def
      split: prod.splits)

lemma descToType_alternatives:
  assumes "type desc = ''alternatives''" and "typeName_of desc isInput st = (typeName, st1)"
    and "alternatives desc = Some alts"
  shows "descToType desc isInput st =
     wrap_required (isInput \<and> presence desc ''required'')
       (case makeArrayAlternativeType isInput typeName desc (filter not_forbidden alts) st1 of
          Inl e \<Rightarrow> Inl e
        | Inr (ty, st2) \<Rightarrow> Inr (ty, cache_if_absent typeName ty st2))"
  using assms
  by (simp add: descToType.simps [of desc isInput st] Let_def
      split: option.splits sum.splits prod.splits)

lemma descToType_alternatives_none:
  assumes "type desc = ''alternatives''" and "alternatives desc = None"
  shows "descToType desc isInput st = Inl TypeError"
  using assms
  by (simp add: descToType.simps [of desc isInput st] Let_def wrap_required_def
      split: prod.splits)

lemma descToType_scalar:
  assumes "type desc \<in> {''boolean'', ''date'', ''string'', ''number''}"
    and "typeName_of desc isInput st = (typeName, st1)"
  shows "descToType desc isInput st =
     wrap_required (isInput \<and> presence desc ''required'') (Inr (scalar_type desc, st1))"
  using assms
  by (auto simp add: descToType.simps [of desc isInput st] Let_def scalar_type_def)

lemma descToType_other:
  assumes "type desc \<notin> {''boolean'', ''date'', ''string'', ''number'', ''object'', ''array'',
     ''alternatives''}"
  shows "descToType desc isInput st = Inl TypeError"
  using assms
  by (simp add: descToType.simps [of desc isInput st] Let_def wrap_required_def
      split: prod.splits)

lemma wrap_required_InrD:
  "wrap_required b res = Inr (ty, st') \<Longrightarrow>
     \<exists>ty0 st0. res = Inr (ty0, st0) \<and> cachedTypes st' = cachedTypes st0 \<and>
        idCounter st' = idCounter st0 \<and>
        (if b then \<not> is_NonNull ty0 \<and> ty = GraphQLNonNull (nextRef st0) ty0 \<and> st' = new_ref st0
         else ty = ty0 \<and> st' = st0)"
  by (auto simp: wrap_required_def new_GraphQLNonNull_def new_ref_def
      split: sum.splits if_splits)

lemma wrap_required_InlD:
  "wrap_required b res = Inl e \<Longrightarrow>
     res = Inl e \<or> (b \<and> e = InvariantViolation \<and> (\<exists>ty st. res = Inr (ty, st) \<and> is_NonNull ty))"
  by (auto simp: wrap_required_def new_GraphQLNonNull_def split: sum.splits if_splits)

lemma wrap_required_Inr:
  "wrap_required b (Inr (ty, st)) =
     (if b then (if is_NonNull ty then Inl InvariantViolation
                 else Inr (GraphQLNonNull (nextRef st) ty, new_ref st))
      else Inr (ty, st))"
  by (simp add: wrap_required_def new_GraphQLNonNull_def)

lemma wrap_required_Inl [simp]: "wrap_required b (Inl e) = Inl e"
  by (simp add: wrap_required_def)

lemma wrap_required_False [simp]: "wrap_required False r = r"
  by (simp add: wrap_required_def split: sum.splits)

subsection \<open>A call keeps every cache entry it finds\<close>

lemma cache_stable_all:
  "(\<forall>ty st'. descToType desc isInput st = Inr (ty, st') \<longrightarrow> cache_le st st')"
  "(\<forall>fs st'. object_input_fields cs st2 = Inr (fs, st') \<longrightarrow> cache_le st2 st')"
  "(\<forall>tys st'. map_descToType ds isInput3 st3 = Inr (tys, st') \<longrightarrow> cache_le st3 st')"
  "(\<forall>ty st'. makeArrayAlternativeType isInput4 typeName4 desc4 its4 st4 = Inr (ty, st') \<longrightarrow> cache_le st4 st')"
  "(\<forall>as st'. descToArgs desc5 st5 = Inr (as, st') \<longrightarrow> cache_le st5 st')"
  "(\<forall>as st'. args_fields as6 st6 = Inr (as, st') \<longrightarrow> cache_le st6 st')"
  "(\<forall>fs st'. descsToFields cs7 st7 = Inr (fs, st') \<longrightarrow> cache_le st7 st')"
proof (induction desc isInput st and cs st2 and ds isInput3 st3 and isInput4 typeName4 desc4 its4 st4
    and desc5 st5 and as6 st6 and cs7 st7
    rule: descToType_object_input_fields_map_descToType_makeArrayAlternativeType_descToArgs_args_fields_descsToFields.induct)
  case (1 desc isInput st)
  obtain n st1 where tn: "typeName_of desc isInput st = (n, st1)"
    by (cases "typeName_of desc isInput st")
  have c1: "cachedTypes st1 = cachedTypes st"
    using cachedTypes_typeName_of [of desc isInput st] tn by simp
  show ?case
  proof (intro allI impI)
    fix ty st'
    assume r: "descToType desc isInput st = Inr (ty, st')"
    have known: "type desc \<in> {''boolean'', ''date'', ''string'', ''number'', ''object'',
        ''array'', ''alternatives''}"
      using r descToType_other [of desc isInput st] by auto
    then consider (scalar) "type desc \<in> {''boolean'', ''date'', ''string'', ''number''}"
      | (object) "type desc = ''object''" | (array) "type desc = ''array''"
      | (alts) "type desc = ''alternatives''"
      by auto
    then show "cache_le st st'"
    proof cases
      case scalar
      from r wrap_required_InrD show ?thesis
        unfolding descToType_scalar [OF scalar tn] using c1 by (fastforce intro: cache_le_eqI)
    next
      case object
      show ?thesis
      proof (cases "cachedTypes st1 n")
        case (Some cached)
        from r have "wrap_required (isInput \<and> presence desc ''required'') (Inr (cached, st1))
            = Inr (ty, st')"
          unfolding descToType_object_cached [OF object tn Some] .
        then have "cachedTypes st' = cachedTypes st1" by (auto dest!: wrap_required_InrD)
        with c1 show ?thesis by (simp add: cache_le_def)
      next
        case None
        from r obtain ty0 st0 where
          core: "(case (if isInput then object_input_fields (children desc) st1
                        else descsToFields (children desc) st1) of
              Inl e \<Rightarrow> Inl e
            | Inr (flds, st2) \<Rightarrow>
                if valid_type_name n
                then Inr (object_node isInput n (description desc) flds (nextRef st2),
                          (new_ref st2)\<lparr>cachedTypes := (cachedTypes st2)(n \<mapsto>
                             object_node isInput n (description desc) flds (nextRef st2))\<rparr>)
                else Inl InvariantViolation) = Inr (ty0, st0)"
          and c': "cachedTypes st' = cachedTypes st0"
          unfolding descToType_object_new [OF object tn None] by (blast dest: wrap_required_InrD)
        then obtain flds st2 where
          f: "(if isInput then object_input_fields (children desc) st1
               else descsToFields (children desc) st1) = Inr (flds, st2)"
          and s0: "cachedTypes st0 = (cachedTypes st2)(n \<mapsto> ty0)"
          by (auto split: sum.splits if_splits)
        have "cache_le st1 st2"
        proof (cases isInput)
          case True
          with f have "object_input_fields (children desc) st1 = Inr (flds, st2)" by simp
          then show ?thesis
            using "1.IH"(1) [OF refl tn [symmetric] refl _ _ _ _ object None True] object by simp
        next
          case False
          with f have "descsToFields (children desc) st1 = Inr (flds, st2)" by simp
          then show ?thesis
            using "1.IH"(2) [OF refl tn [symmetric] refl _ _ _ _ object None False] object by simp
        qed
        then show ?thesis using None c1 c' s0 by (auto simp: cache_le_def map_le_def)
      qed
    next
      case array
      show ?thesis
      proof (cases "items desc")
        case None
        with r array show ?thesis by (simp add: descToType_array_none)
      next
        case (Some its)
        show ?thesis
        proof (cases "length (filter not_forbidden its) = 1")
          case True
          then obtain item where one: "filter not_forbidden its = [item]"
            by (cases "filter not_forbidden its") auto
          from r obtain ty0 st0 where
            core: "(case descToType item isInput st1 of
                Inl e \<Rightarrow> Inl e
              | Inr (ty, st2) \<Rightarrow>
                  Inr (GraphQLList (nextRef (cache_if_absent n ty st2)) ty,
                       new_ref (cache_if_absent n ty st2))) = Inr (ty0, st0)"
            and c': "cachedTypes st' = cachedTypes st0"
            unfolding descToType_array_one [OF array tn Some one] by (blast dest: wrap_required_InrD)
          then obtain t2 st2 where i2: "descToType item isInput st1 = Inr (t2, st2)"
            and s0: "st0 = new_ref (cache_if_absent n t2 st2)"
            by (auto split: sum.splits)
          have "cache_le st1 st2"
            using "1.IH"(3) [OF refl tn [symmetric] refl _ _ _ _ _ array Some refl True] array i2 one
            by simp
          moreover have "cache_le st2 st0" using s0 cache_le_cache_if_absent [of st2 n t2]
            by (simp add: cache_le_def)
          ultimately have "cache_le st1 st0" by (rule cache_le_trans)
          then show ?thesis using c1 c' by (simp add: cache_le_def)
        next
          case False
          obtain n' st2 where cn: "compositeName (filter not_forbidden its) isInput st1 = (n', st2)"
            by (cases "compositeName (filter not_forbidden its) isInput st1")
          have c2: "cachedTypes st2 = cachedTypes st1"
            using cachedTypes_compositeName [of "filter not_forbidden its" isInput st1] cn by simp
          from r obtain ty0 st0 where
            core: "(case makeArrayAlternativeType isInput n' desc (filter not_forbidden its) st2 of
                Inl e \<Rightarrow> Inl e
              | Inr (ty, st3) \<Rightarrow>
                  Inr (GraphQLList (nextRef (cache_if_absent n' ty st3)) ty,
                       new_ref (cache_if_absent n' ty st3))) = Inr (ty0, st0)"
            and c': "cachedTypes st' = cachedTypes st0"
            unfolding descToType_array_many [OF array tn Some False cn]
            by (blast dest: wrap_required_InrD)
          then obtain t3 st3 where
            i3: "makeArrayAlternativeType isInput n' desc (filter not_forbidden its) st2 = Inr (t3, st3)"
            and s0: "st0 = new_ref (cache_if_absent n' t3 st3)"
            by (auto split: sum.splits)
          have "cache_le st2 st3"
            using "1.IH"(4) [OF refl tn [symmetric] refl _ _ _ _ _ array Some refl False refl cn [symmetric]]
              array i3 by simp
          moreover have "cache_le st3 st0" using s0 cache_le_cache_if_absent [of st3 n' t3]
            by (simp add: cache_le_def)
          ultimately have "cache_le st2 st0" by (rule cache_le_trans)
          then show ?thesis using c1 c2 c' by (simp add: cache_le_def)
        qed
      qed
    next
      case alts
      show ?thesis
      proof (cases "alternatives desc")
        case None
        with r alts show ?thesis by (simp add: descToType_alternatives_none)
      next
        case (Some as)
        from r obtain ty0 st0 where
          core: "(case makeArrayAlternativeType isInput n desc (filter not_forbidden as) st1 of
              Inl e \<Rightarrow> Inl e
            | Inr (ty, st2) \<Rightarrow> Inr (ty, cache_if_absent n ty st2)) = Inr (ty0, st0)"
          and c': "cachedTypes st' = cachedTypes st0"
          unfolding descToType_alternatives [OF alts tn Some] by (blast dest: wrap_required_InrD)
        then obtain st2 where
          i2: "makeArrayAlternativeType isInput n desc (filter not_forbidden as) st1 = Inr (ty0, st2)"
          and s0: "st0 = cache_if_absent n ty0 st2"
          by (auto split: sum.splits)
        have "cache_le st1 st2"
          using "1.IH"(5) [OF refl tn [symmetric] refl _ _ _ _ _ _ alts Some] alts i2 by simp
        moreover have "cache_le st2 st0" using s0 cache_le_cache_if_absent [of st2 n ty0] by simp
        ultimately have "cache_le st1 st0" by (rule cache_le_trans)
        then show ?thesis using c1 c' by (simp add: cache_le_def)
      qed
    qed
  qed
next
  case (2 st)
  then show ?case by simp
next
  case (3 k child rest st)
  then show ?case
    by (auto split: sum.splits if_splits intro: cache_le_trans)
next
  case (4 isInput st)
  then show ?case by simp
next
  case (5 item rest isInput st)
  then show ?case by (auto split: sum.splits if_splits intro: cache_le_trans)
next
  case (6 isInput typeName desc its st)
  then show ?case
    apply (simp add: makeArrayAlternativeType.simps [of isInput typeName desc its st])
    by (auto simp: new_GraphQLInputObjectType_def new_GraphQLUnionType_def
        split: sum.splits if_splits option.splits intro: cache_le_trans cache_le_eqI)
next
  case (7 desc st)
  then show ?case     
    by (auto simp: descToArgs.simps[of desc st] split: sum.splits if_splits option.splits intro: cache_le_trans cache_le_eqI)
next
  case (8 st)
  then show ?case by simp
next
  case (9 k schema rest st)
  then show ?case by (auto split: sum.splits if_splits intro: cache_le_trans)
next
  case (10 st)
  then show ?case by simp
next
  case (11 k desc rest st)
  then show ?case
    by (auto split: sum.splits if_splits) (meson cache_le_trans)
qed

subsection \<open>A field that fails makes the field synthesizer fail\<close>

lemma descsToFields_fails:
  "(k, d) \<in> set cs \<Longrightarrow> not_forbidden d \<Longrightarrow> \<forall>st. \<exists>e. descToType d False st = Inl e
     \<Longrightarrow> \<exists>e. descsToFields cs st = Inl e"
proof (induction cs arbitrary: st)
  case Nil
  then show ?case by simp
next
  case (Cons kd cs)
  obtain k' d' where kd: "kd = (k', d')" by (cases kd)
  show ?case
  proof (cases "(k, d) = kd")
    case True
    then have "k' = k" "d' = d" using kd by auto
    moreover obtain e where "descToType d False st = Inl e" using Cons.prems(3) by blast
    ultimately show ?thesis using Cons.prems(2) kd by (simp add: not_forbidden_def)
  next
    case False
    then have IH: "\<And>st. \<exists>e. descsToFields cs st = Inl e"
      using Cons by auto
    show ?thesis
    proof (cases "presence d' ''forbidden''")
      case True
      then show ?thesis using kd IH [of st] by simp
    next
      case nf: False
      show ?thesis
      proof (cases "descToType d' False st")
        case (Inl e)
        then show ?thesis using kd nf by simp
      next
        case (Inr r)
        obtain ty st1 where r: "r = (ty, st1)" by (cases r)
        show ?thesis
        proof (cases "descToArgs d' st1")
          case (Inl e)
          then show ?thesis using kd nf Inr r by simp
        next
          case args: (Inr a)
          obtain as st2 where a: "a = (as, st2)" by (cases a)
          from IH [of st2] obtain e where "descsToFields cs st2 = Inl e" by blast
          then show ?thesis using kd nf Inr r args a by simp
        qed
      qed
    qed
  qed
qed

subsection \<open>The presence flag\<close>

lemma makeArrayAlternativeType_description:
  "description d = description d' \<Longrightarrow>
     makeArrayAlternativeType isInput n d its st = makeArrayAlternativeType isInput n d' its st"
  by (simp add: makeArrayAlternativeType.simps [of isInput n d its st]
      makeArrayAlternativeType.simps [of isInput n d' its st]
      split: sum.splits option.splits prod.splits)

lemma without_presence_sel [simp]:
  "type (without_presence d) = type d"
  "rules (without_presence d) = rules d"
  "children (without_presence d) = children d"
  "items (without_presence d) = items d"
  "alternatives (without_presence d) = alternatives d"
  "meta (without_presence d) = meta d"
  "description (without_presence d) = description d"
  "flags_presence (without_presence d) = None"
  by (simp_all add: without_presence_def)

lemma typeName_of_without_presence [simp]:
  "typeName_of (without_presence d) isInput st = typeName_of d isInput st"
  by (simp add: typeName_of_def first_meta_name_def)

lemma presence_without_presence [simp]: "\<not> presence (without_presence d) name"
  by (simp add: presence_def)

lemma descToType_presence:
  "descToType d isInput st =
     wrap_required (isInput \<and> presence d ''required'')
       (descToType (without_presence d) isInput st)"
proof -
  have m: "\<And>n its s. makeArrayAlternativeType isInput n (without_presence d) its s
      = makeArrayAlternativeType isInput n d its s"
    by (rule makeArrayAlternativeType_description) simp
  show ?thesis
    by (simp add: descToType.simps [of d isInput st]
        descToType.simps [of "without_presence d" isInput st] m split_beta Let_def
        cong: option.case_cong sum.case_cong if_cong)
qed

subsection \<open>The first matching candidate\<close>

lemma map_descToType_length:
  "map_descToType its isInput st = Inr (types, st') \<Longrightarrow> length types = length its"
  by (induction its arbitrary: st types) (auto split: sum.splits)

lemma resolve_candidates_length [simp]:
  "length (resolve_candidates its types val) = length its"
  by (simp add: resolve_candidates_def)

lemma resolve_candidates_nth:
  "length types = length its \<Longrightarrow> i < length its \<Longrightarrow>
     resolve_candidates its types val ! i =
       (if item_matches (its ! i) val then Some (types ! i) else None)"
  by (simp add: resolve_candidates_def nth_opt_def)

lemma resolveType_candidates:
  "resolveType its types val =
     (case find (\<lambda>r. r \<noteq> None) (resolve_candidates its types val) of None \<Rightarrow> None | Some r \<Rightarrow> r)"
  by (simp add: resolveType_def resolve_candidates_def)

lemma resolveType_first:
  assumes len: "length types = length its" and i: "i < length its"
    and m: "item_matches (its ! i) val" and first: "\<forall>j<i. \<not> item_matches (its ! j) val"
  shows "resolveType its types val = Some (types ! i)"
proof -
  let ?ys = "resolve_candidates its types val"
  have a: "?ys ! i = Some (types ! i)" using resolve_candidates_nth [OF len i] m by simp
  have b: "\<forall>j<i. \<not> (?ys ! j \<noteq> None)"
    using first i resolve_candidates_nth [OF len] by simp
  have "find (\<lambda>r. r \<noteq> None) ?ys = Some (Some (types ! i))"
    unfolding find_Some_iff using a b i by (intro exI [of _ i]) simp
  then show ?thesis by (simp add: resolveType_candidates)
qed

lemma resolveType_none:
  assumes len: "length types = length its"
    and none: "\<forall>i<length its. \<not> item_matches (its ! i) val"
  shows "resolveType its types val = None"
proof -
  let ?ys = "resolve_candidates its types val"
  have "\<forall>r\<in>set ?ys. \<not> r \<noteq> None"
    using none resolve_candidates_nth [OF len] by (auto simp: in_set_conv_nth)
  then have "find (\<lambda>r. r \<noteq> None) ?ys = None" unfolding find_None_iff by blast
  then show ?thesis by (simp add: resolveType_candidates)
qed

subsection \<open>Composite names\<close>

lemma item_name_unnamed:
  "first_meta_name d = None \<Longrightarrow>
     fst (item_name d isInput st) =
       (if capitalize (type d) \<noteq> [] then input_prefix isInput @ capitalize (type d)
        else input_prefix isInput @ ''Anon'' @ show_nat (idCounter st + 1))"
  by (simp add: item_name_def meta_dot_name_def capitalize_def uniqueId_def Let_def)

lemma item_name_prefix: "\<exists>c. fst (item_name d isInput st) = input_prefix isInput @ c"
  by (simp add: item_name_def Let_def split_beta)

lemma item_names_length: "length (fst (item_names ds isInput st)) = length ds"
  by (induction ds arbitrary: st) (simp_all add: split_beta)

lemma item_names_nth:
  "i < length ds \<Longrightarrow> \<exists>s. fst (item_names ds isInput st) ! i = fst (item_name (ds ! i) isInput s)"
proof (induction ds arbitrary: st i)
  case Nil
  then show ?case by simp
next
  case (Cons d ds)
  show ?case
  proof (cases i)
    case 0
    then show ?thesis by (auto simp: split_beta)
  next
    case (Suc j)
    then have "j < length ds" using Cons.prems by simp
    from Cons.IH [OF this, of "snd (item_name d isInput st)"] Suc
    show ?thesis by (auto simp: split_beta)
  qed
qed

lemma makeArrayAlternativeType_name:
  assumes "makeArrayAlternativeType isInput n d its st = Inr (t, st')"
    and "map_descToType its isInput st = Inr (types, st1)" and "cachedTypes st1 n = None"
  shows "type_name t = Some n"
  using assms
  by (auto simp: makeArrayAlternativeType.simps [of isInput n d its st] type_name_def
      new_GraphQLInputObjectType_def new_GraphQLUnionType_def
      split: if_splits sum.splits)

subsection \<open>Fields and merged children\<close>

lemma descsToFields_sources:
  "descsToFields cs st = Inr (fs, st') \<Longrightarrow>
     map (\<lambda>kf. (fst kf, field_source (snd kf))) fs =
     map (\<lambda>kd. (fst kd, Some (snd kd))) (filter (\<lambda>kd. not_forbidden (snd kd)) cs)"
proof (induction cs arbitrary: st fs)
  case Nil
  then show ?case by simp
next
  case (Cons kd cs)
  obtain k d where kd: "kd = (k, d)" by (cases kd)
  show ?case
  proof (cases "presence d ''forbidden''")
    case True
    then show ?thesis using Cons kd by (simp add: not_forbidden_def)
  next
    case False
    with Cons.prems kd obtain ty st1 args st2 fs' where
      "descsToFields cs st2 = Inr (fs', st')"
      and fs: "fs = (k, Field ty args (case description d of None \<Rightarrow> [] | Some s \<Rightarrow> s) d) # fs'"
      by (auto split: sum.splits)
    then show ?thesis using Cons.IH False kd by (simp add: not_forbidden_def field_source_def)
  qed
qed






subsection \<open>Forbidden elements\<close>

lemma drop_forbidden_sel [simp]:
  "type (drop_forbidden d) = type d"
  "flags_presence (drop_forbidden d) = flags_presence d"
  "rules (drop_forbidden d) = rules d"
  "children (drop_forbidden d) = filter (\<lambda>kd. not_forbidden (snd kd)) (children d)"
  "items (drop_forbidden d) = map_option (filter not_forbidden) (items d)"
  "alternatives (drop_forbidden d) = map_option (filter not_forbidden) (alternatives d)"
  "meta (drop_forbidden d) = meta d"
  "description (drop_forbidden d) = description d"
  by (simp_all add: drop_forbidden_def)

lemma typeName_of_drop_forbidden [simp]:
  "typeName_of (drop_forbidden d) isInput st = typeName_of d isInput st"
  by (simp add: typeName_of_def first_meta_name_def)

lemma presence_drop_forbidden [simp]: "presence (drop_forbidden d) name = presence d name"
  by (simp add: presence_def)

lemma object_input_fields_filter:
  "object_input_fields (filter (\<lambda>kd. not_forbidden (snd kd)) cs) st = object_input_fields cs st"
  by (induction cs arbitrary: st) (auto simp: not_forbidden_def split: sum.splits)

lemma descsToFields_filter:
  "descsToFields (filter (\<lambda>kd. not_forbidden (snd kd)) cs) st = descsToFields cs st"
  by (induction cs arbitrary: st) (auto simp: not_forbidden_def split: sum.splits)

lemma object_input_fields_keys:
  "object_input_fields cs st = Inr (fs, st') \<Longrightarrow>
     map fst fs = map fst (filter (\<lambda>kd. not_forbidden (snd kd)) cs)"
proof (induction cs arbitrary: st fs)
  case Nil
  then show ?case by simp
next
  case (Cons kd cs)
  obtain k d where kd: "kd = (k, d)" by (cases kd)
  show ?case
  proof (cases "presence d ''forbidden''")
    case True
    then show ?thesis using Cons kd by (simp add: not_forbidden_def)
  next
    case False
    with Cons.prems kd obtain ty st1 fs' where
      "object_input_fields cs st1 = Inr (fs', st')" and "fs = (k, InputField ty) # fs'"
      by (auto split: sum.splits)
    then show ?thesis using Cons.IH False kd by (simp add: not_forbidden_def)
  qed
qed

lemma args_fields_keys:
  "args_fields cs st = Inr (as, st') \<Longrightarrow>
     map fst as = map fst (filter (\<lambda>kd. not_forbidden (snd kd)) cs)"
proof (induction cs arbitrary: st as)
  case Nil
  then show ?case by simp
next
  case (Cons kd cs)
  obtain k d where kd: "kd = (k, d)" by (cases kd)
  show ?case
  proof (cases "presence d ''forbidden''")
    case True
    then show ?thesis using Cons kd by (simp add: not_forbidden_def)
  next
    case False
    with Cons.prems kd obtain ty st1 as' where
      "args_fields cs st1 = Inr (as', st')" and "as = (k, ty) # as'"
      by (auto split: sum.splits)
    then show ?thesis using Cons.IH False kd by (simp add: not_forbidden_def)
  qed
qed

lemma descToArgs_keys:
  "descToArgs d st = Inr (as, st') \<Longrightarrow>
     map_option (map fst) as =
       map_option (\<lambda>schema. map fst (filter (\<lambda>kd. not_forbidden (snd kd)) schema))
         (first_meta_args d)"
  by (auto simp: descToArgs.simps [of d st] split: option.splits sum.splits
      dest: args_fields_keys)

lemma descToType_drop_forbidden:
  "descToType (drop_forbidden d) isInput st = descToType d isInput st"
proof -
  obtain n st1 where tn: "typeName_of d isInput st = (n, st1)"
    by (cases "typeName_of d isInput st")
  then have tn': "typeName_of (drop_forbidden d) isInput st = (n, st1)" by simp
  have m: "\<And>n its s. makeArrayAlternativeType isInput n (drop_forbidden d) its s
      = makeArrayAlternativeType isInput n d its s"
    by (rule makeArrayAlternativeType_description) simp
  consider (scalar) "type d \<in> {''boolean'', ''date'', ''string'', ''number''}"
    | (object) "type d = ''object''" | (array) "type d = ''array''"
    | (alts) "type d = ''alternatives''"
    | (other) "type d \<notin> {''boolean'', ''date'', ''string'', ''number'', ''object'',
        ''array'', ''alternatives''}"
    by auto
  then show ?thesis
  proof cases
    case scalar
    then have "type (drop_forbidden d) \<in> {''boolean'', ''date'', ''string'', ''number''}" by simp
    from descToType_scalar [OF this tn'] descToType_scalar [OF scalar tn]
    show ?thesis by (simp add: scalar_type_def)
  next
    case object
    then have o': "type (drop_forbidden d) = ''object''" by simp
    show ?thesis
    proof (cases "cachedTypes st1 n")
      case None
      from descToType_object_new [OF o' tn' None] descToType_object_new [OF object tn None]
      show ?thesis
        by (simp add: object_input_fields_filter descsToFields_filter
            cong: option.case_cong sum.case_cong if_cong)
    next
      case (Some cached)
      from descToType_object_cached [OF o' tn' Some] descToType_object_cached [OF object tn Some]
      show ?thesis by simp
    qed
  next
    case array
    then have a': "type (drop_forbidden d) = ''array''" by simp
    show ?thesis
    proof (cases "items d")
      case None
      then show ?thesis using array a' by (simp add: descToType_array_none)
    next
      case (Some its)
      then have it': "items (drop_forbidden d) = Some (filter not_forbidden its)" by simp
      show ?thesis
      proof (cases "length (filter not_forbidden its) = 1")
        case True
        then obtain item where one: "filter not_forbidden its = [item]"
          by (cases "filter not_forbidden its") auto
        have "filter not_forbidden (filter not_forbidden its) = filter not_forbidden its"
          by simp
        then have one': "filter not_forbidden (filter not_forbidden its) = [item]"
          using one by (simp only:)
        from descToType_array_one [OF a' tn' it' one'] descToType_array_one [OF array tn Some one]
        show ?thesis by (simp cong: option.case_cong sum.case_cong if_cong)
      next
        case False
        then have ln': "length (filter not_forbidden (filter not_forbidden its)) \<noteq> 1" by simp
        obtain N st2 where cn: "compositeName (filter not_forbidden its) isInput st1 = (N, st2)"
          by (cases "compositeName (filter not_forbidden its) isInput st1")
        then have cn': "compositeName (filter not_forbidden (filter not_forbidden its)) isInput st1
            = (N, st2)" by simp
        from descToType_array_many [OF a' tn' it' ln' cn']
          descToType_array_many [OF array tn Some False cn]
        show ?thesis by (simp add: m cong: option.case_cong sum.case_cong if_cong)
      qed
    qed
  next
    case alts
    then have a': "type (drop_forbidden d) = ''alternatives''" by simp
    show ?thesis
    proof (cases "alternatives d")
      case None
      then show ?thesis using alts a' by (simp add: descToType_alternatives_none)
    next
      case (Some as)
      then have al': "alternatives (drop_forbidden d) = Some (filter not_forbidden as)" by simp
      from descToType_alternatives [OF a' tn' al'] descToType_alternatives [OF alts tn Some]
      show ?thesis by (simp add: m cong: option.case_cong sum.case_cong if_cong)
    qed
  next
    case other
    then have "type (drop_forbidden d) \<notin> {''boolean'', ''date'', ''string'', ''number'',
        ''object'', ''array'', ''alternatives''}" by simp
    from descToType_other [OF this] descToType_other [OF other]
    show ?thesis by simp
  qed
qed

lemma object_fields_keys:
  assumes "type d = ''object''" and "typeName_of d isInput st = (n, st1)"
    and "cachedTypes st1 n = None" and "descToType d isInput st = Inr (ty, st')"
  shows "map fst (type_fields ty) = map fst (filter (\<lambda>kd. not_forbidden (snd kd)) (children d))"
proof -
  obtain ty0 st0 where
    core: "(case (if isInput then object_input_fields (children d) st1
                  else descsToFields (children d) st1) of
              Inl e \<Rightarrow> Inl e
            | Inr (flds, st2) \<Rightarrow>
                if valid_type_name n
                then Inr (object_node isInput n (description d) flds (nextRef st2),
                          (new_ref st2)\<lparr>cachedTypes := (cachedTypes st2)(n \<mapsto>
                             object_node isInput n (description d) flds (nextRef st2))\<rparr>)
                else Inl InvariantViolation) = Inr (ty0, st0)"
    and w: "if isInput \<and> presence d ''required''
         then \<not> is_NonNull ty0 \<and> ty = GraphQLNonNull (nextRef st0) ty0 \<and> st' = new_ref st0
         else ty = ty0 \<and> st' = st0"
    using assms(4) descToType_object_new [OF assms(1) assms(2) assms(3)]
    by (auto dest!: wrap_required_InrD)
  have tf: "type_fields ty = type_fields ty0" using w by (auto split: if_splits)
  show ?thesis
  proof (cases isInput)
    case True
    with core obtain flds st2 where "object_input_fields (children d) st1 = Inr (flds, st2)"
      and "ty0 = GraphQLInputObjectType (nextRef st2) n (description d) flds"
      by (auto simp: object_node_def split: sum.splits if_splits)
    then show ?thesis using tf object_input_fields_keys by simp
  next
    case False
    with core obtain flds st2 where f: "descsToFields (children d) st1 = Inr (flds, st2)"
      and "ty0 = GraphQLObjectType (nextRef st2) n (description d) flds"
      by (auto simp: object_node_def split: sum.splits if_splits)
    then have "map fst (type_fields ty) = map fst flds" using tf by simp
    also have "\<dots> = map fst (map (\<lambda>kf. (fst kf, field_source (snd kf))) flds)"
      by (simp add: comp_def)
    also have "\<dots> = map fst (filter (\<lambda>kd. not_forbidden (snd kd)) (children d))"
      unfolding descsToFields_sources [OF f] by (simp add: comp_def)
    finally show ?thesis .
  qed
qed

lemma alternatives_union_members:
  assumes "type d = ''alternatives''" and "alternatives d = Some alts"
    and "typeName_of d False st = (n, st1)"
    and "map_descToType (filter not_forbidden alts) False st1 = Inr (tys, st2)"
    and "cachedTypes st2 n = None" and "valid_type_name n"
  shows "\<exists>st'. descToType d False st =
     Inr (GraphQLUnionType (nextRef st2) n (description d) tys (filter not_forbidden alts), st')"
  unfolding descToType_alternatives [OF assms(1) assms(3) assms(2)]
  using assms(4) assms(5) assms(6)
  by (simp add: makeArrayAlternativeType.simps [of False n d "filter not_forbidden alts" st1]
      new_GraphQLUnionType_def)

lemma array_union_members:
  assumes "type d = ''array''" and "items d = Some its"
    and "length (filter not_forbidden its) \<noteq> 1"
    and "typeName_of d False st = (n, st1)"
    and "compositeName (filter not_forbidden its) False st1 = (N, st2)"
    and "map_descToType (filter not_forbidden its) False st2 = Inr (tys, st3)"
    and "cachedTypes st3 N = None" and "valid_type_name N"
  shows "\<exists>r st'. descToType d False st =
     Inr (GraphQLList r
            (GraphQLUnionType (nextRef st3) N (description d) tys (filter not_forbidden its)), st')"
  unfolding descToType_array_many [OF assms(1) assms(4) assms(2) assms(3) assms(5)]
  using assms(6) assms(7) assms(8)
  by (simp add: makeArrayAlternativeType.simps [of False N d "filter not_forbidden its" st2]
      new_GraphQLUnionType_def)

subsection \<open>Cached names\<close>


lemma cache_stable_map:
  "map_descToType ds isInput st = Inr (tys, st') \<Longrightarrow> cachedTypes st n = Some t \<Longrightarrow>
     cachedTypes st' n = Some t"
  using cache_stable_all(3) [of ds isInput st]
  by (auto simp: cache_le_def map_le_def dom_def)

lemma object_cached:
  assumes "type d = ''object''" and "typeName_of d isInput st = (n, st1)"
    and "cachedTypes st n = Some t"
  shows "descToType d isInput st =
     wrap_required (isInput \<and> presence d ''required'') (Inr (t, st1))"
proof -
  have "cachedTypes st1 = cachedTypes st"
    using cachedTypes_typeName_of [of d isInput st] assms(2) by simp
  then have "cachedTypes st1 n = Some t" using assms(3) by simp
  then show ?thesis by (rule descToType_object_cached [OF assms(1) assms(2)])
qed

lemma alternatives_cached:
  assumes "type d = ''alternatives''" and "alternatives d = Some alts"
    and "typeName_of d isInput st = (n, st1)" and "cachedTypes st n = Some t"
    and "map_descToType (filter not_forbidden alts) isInput st1 = Inr (tys, st2)"
  shows "descToType d isInput st =
     wrap_required (isInput \<and> presence d ''required'') (Inr (t, st2))"
proof -
  have "cachedTypes st1 = cachedTypes st"
    using cachedTypes_typeName_of [of d isInput st] assms(3) by simp
  then have "cachedTypes st1 n = Some t" using assms(4) by simp
  then have c2: "cachedTypes st2 n = Some t" using cache_stable_map [OF assms(5)] by simp
  then have "makeArrayAlternativeType isInput n d (filter not_forbidden alts) st1 = Inr (t, st2)"
    using assms(5)
    by (simp add: makeArrayAlternativeType.simps [of isInput n d "filter not_forbidden alts" st1])
  then show ?thesis
    unfolding descToType_alternatives [OF assms(1) assms(3) assms(2)]
    using c2 by (simp add: cache_if_absent_def)
qed

lemma array_many_cached:
  assumes "type d = ''array''" and "items d = Some its"
    and "length (filter not_forbidden its) \<noteq> 1"
    and "typeName_of d isInput st = (m, st1)"
    and "compositeName (filter not_forbidden its) isInput st1 = (n, st2)"
    and "cachedTypes st n = Some t"
    and "map_descToType (filter not_forbidden its) isInput st2 = Inr (tys, st3)"
  shows "descToType d isInput st =
     wrap_required (isInput \<and> presence d ''required'')
       (Inr (GraphQLList (nextRef st3) t, new_ref st3))"
proof -
  have "cachedTypes st1 = cachedTypes st"
    using cachedTypes_typeName_of [of d isInput st] assms(4) by simp
  moreover have "cachedTypes st2 = cachedTypes st1"
    using cachedTypes_compositeName [of "filter not_forbidden its" isInput st1] assms(5) by simp
  ultimately have "cachedTypes st2 n = Some t" using assms(6) by simp
  then have c3: "cachedTypes st3 n = Some t" using cache_stable_map [OF assms(7)] by simp
  then have "makeArrayAlternativeType isInput n d (filter not_forbidden its) st2 = Inr (t, st3)"
    using assms(7)
    by (simp add: makeArrayAlternativeType.simps [of isInput n d "filter not_forbidden its" st2])
  then show ?thesis
    unfolding descToType_array_many [OF assms(1) assms(4) assms(2) assms(3) assms(5)]
    using c3 by (simp add: cache_if_absent_def)
qed


lemma typeName_of_value:
  "typeName_of d isInput st = (n, st1) \<Longrightarrow>
     n = input_prefix isInput @
           (case first_meta_name d of
              None \<Rightarrow> ''Anon'' @ show_nat (idCounter st + 1)
            | Some nm \<Rightarrow> if nm \<noteq> [] then nm else ''Anon'' @ show_nat (idCounter st + 1))"
  by (auto simp: typeName_of_def uniqueId_def split: option.splits if_splits)


subsection \<open>Where a non-null node can come from\<close>

lemma makeArrayAlternativeType_NonNull:
  assumes "makeArrayAlternativeType isInput n d its st = Inr (ty, st')" and "is_NonNull ty"
  shows "cachedTypes st' n = Some ty"
  using assms
  by (auto simp: makeArrayAlternativeType.simps [of isInput n d its st] is_NonNull_def
      new_GraphQLInputObjectType_def new_GraphQLUnionType_def
      split: sum.splits option.splits if_splits)

lemma NonNull_from_cache:
  assumes r: "descToType d isInput st = Inr (ty, st')"
    and nr: "\<not> (isInput \<and> presence d ''required'')" and nn: "is_NonNull ty"
  shows "(type d = ''object'' \<or> type d = ''alternatives'') \<and>
     cachedTypes st' (fst (typeName_of d isInput st)) = Some ty"
proof -
  obtain n st1 where tn: "typeName_of d isInput st = (n, st1)"
    by (cases "typeName_of d isInput st")
  have known: "type d \<in> {''boolean'', ''date'', ''string'', ''number'', ''object'',
      ''array'', ''alternatives''}"
    using r descToType_other [of d isInput st] by auto
  then consider (scalar) "type d \<in> {''boolean'', ''date'', ''string'', ''number''}"
    | (object) "type d = ''object''" | (array) "type d = ''array''"
    | (alts) "type d = ''alternatives''"
    by auto
  then show ?thesis
  proof cases
    case scalar
    from r nr nn show ?thesis
      unfolding descToType_scalar [OF scalar tn]
      by (auto simp: scalar_type_def is_NonNull_def split: if_splits)
  next
    case object
    show ?thesis
    proof (cases "cachedTypes st1 n")
      case (Some cached)
      from r nr show ?thesis
        unfolding descToType_object_cached [OF object tn Some] using Some tn object by auto
    next
      case None
      from r nr nn show ?thesis
        unfolding descToType_object_new [OF object tn None]
        by (auto simp: object_node_def is_NonNull_def split: sum.splits if_splits)
    qed
  next
    case array
    show ?thesis
    proof (cases "items d")
      case None
      with r array show ?thesis by (simp add: descToType_array_none)
    next
      case (Some its)
      show ?thesis
      proof (cases "length (filter not_forbidden its) = 1")
        case True
        then obtain item where one: "filter not_forbidden its = [item]"
          by (cases "filter not_forbidden its") auto
        from r nr nn show ?thesis
          unfolding descToType_array_one [OF array tn Some one]
          by (auto simp: is_NonNull_def split: sum.splits)
      next
        case False
        obtain n' st2 where cn: "compositeName (filter not_forbidden its) isInput st1 = (n', st2)"
          by (cases "compositeName (filter not_forbidden its) isInput st1")
        from r nr nn show ?thesis
          unfolding descToType_array_many [OF array tn Some False cn]
          by (auto simp: is_NonNull_def split: sum.splits)
      qed
    qed
  next
    case alts
    show ?thesis
    proof (cases "alternatives d")
      case None
      with r alts show ?thesis by (simp add: descToType_alternatives_none)
    next
      case (Some as)
      from r nr obtain st2 where
        m: "makeArrayAlternativeType isInput n d (filter not_forbidden as) st1 = Inr (ty, st2)"
        and s: "st' = cache_if_absent n ty st2"
        unfolding descToType_alternatives [OF alts tn Some]
        by (auto split: sum.splits)
      from makeArrayAlternativeType_NonNull [OF m nn] s
      show ?thesis using alts tn by (simp add: cache_if_absent_def)
    qed
  qed
qed

subsection \<open>An array translates to a list\<close>


subsection \<open>An array with no item left\<close>

text \<open>
  When every item of an array is forbidden, the composite name is the join of no
  component, the empty string, and the constructor of the union or of the input object
  throws \<^verbatim>\<open>Type must be named.\<close>
\<close>

lemma array_without_kept_items:
  assumes "type d = ''array''" and "items d = Some its" and "filter not_forbidden its = []"
    and "cachedTypes st [] = None"
  shows "descToType d isInput st = Inl InvariantViolation"
proof -
  obtain n st1 where tn: "typeName_of d isInput st = (n, st1)"
    by (cases "typeName_of d isInput st")
  have c1: "cachedTypes st1 [] = None"
    using cachedTypes_typeName_of [of d isInput st] tn assms(4) by simp
  have ln: "length (filter not_forbidden its) \<noteq> 1" using assms(3) by simp
  have cn: "compositeName (filter not_forbidden its) isInput st1 = ([], st1)"
    using assms(3) by (simp add: compositeName_def)
  have "makeArrayAlternativeType isInput [] d [] st1 = Inl InvariantViolation"
    using c1
    by (simp add: makeArrayAlternativeType.simps [of isInput "[]" d "[]" st1] assign_def
        new_GraphQLInputObjectType_def new_GraphQLUnionType_def valid_type_name_def)
  then show ?thesis
    unfolding descToType_array_many [OF assms(1) tn assms(2) ln cn] using assms(3) by simp
qed

lemma forbidden_items_fail: "descToType forbidden_items isInput st0 = Inl InvariantViolation"
  by (rule array_without_kept_items [of _ "[forbidden_boolean]"])
    (simp_all add: forbidden_items_def forbidden_boolean_def not_forbidden_def presence_def
      st0_def)

section \<open>The properties\<close>

subsection \<open>C1: a name that is in the cache\<close>




subsection \<open>C2: the required flag\<close>

text \<open>
  C2, as amended. Let a description have \<^verbatim>\<open>required\<close> presence, and compare it with the
  same description without the flag. In input position its translation fails when the
  other fails; otherwise line 110 passes the other's result to \<^verbatim>\<open>new GraphQLNonNull\<close>, so
  the translation is that result inside a new \<^verbatim>\<open>GraphQLNonNull\<close>, unless that result is a
  \<^verbatim>\<open>GraphQLNonNull\<close> itself, where the constructor throws. Only an object or alternatives
  description can meet that case, with a node it took from the cache. In output position
  the two translations are equal: the flag adds no wrapper there.
\<close>

theorem required_wraps_only_in_input_position:
  assumes "presence d ''required''"
  shows "(\<forall>e. descToType (without_presence d) True st = Inl e \<longrightarrow> descToType d True st = Inl e) \<and>
         (\<forall>ty st'. descToType (without_presence d) True st = Inr (ty, st') \<longrightarrow>
            descToType d True st =
              (if is_NonNull ty then Inl InvariantViolation
               else Inr (GraphQLNonNull (nextRef st') ty, new_ref st'))) \<and>
         (\<forall>ty st'. descToType (without_presence d) True st = Inr (ty, st') \<and> is_NonNull ty \<longrightarrow>
            (type d = ''object'' \<or> type d = ''alternatives'') \<and>
            cachedTypes st' (fst (typeName_of d True st)) = Some ty) \<and>
         descToType d False st = descToType (without_presence d) False st"
proof -
  have c1: "\<forall>e. descToType (without_presence d) True st = Inl e \<longrightarrow> descToType d True st = Inl e"
    using descToType_presence [of d True st] by simp
  have c2: "\<forall>ty st'. descToType (without_presence d) True st = Inr (ty, st') \<longrightarrow>
            descToType d True st =
              (if is_NonNull ty then Inl InvariantViolation
               else Inr (GraphQLNonNull (nextRef st') ty, new_ref st'))"
    using assms descToType_presence [of d True st] by (simp add: wrap_required_Inr)
  have c3: "\<forall>ty st'. descToType (without_presence d) True st = Inr (ty, st') \<and> is_NonNull ty \<longrightarrow>
            (type d = ''object'' \<or> type d = ''alternatives'') \<and>
            cachedTypes st' (fst (typeName_of d True st)) = Some ty"
  proof (intro allI impI)
    fix ty st'
    assume a: "descToType (without_presence d) True st = Inr (ty, st') \<and> is_NonNull ty"
    then have "(type (without_presence d) = ''object'' \<or> type (without_presence d) = ''alternatives'') \<and>
       cachedTypes st' (fst (typeName_of (without_presence d) True st)) = Some ty"
      using NonNull_from_cache [of "without_presence d" True st ty st'] by simp
    then show "(type d = ''object'' \<or> type d = ''alternatives'') \<and>
            cachedTypes st' (fst (typeName_of d True st)) = Some ty"
      by simp
  qed
  have c4: "descToType d False st = descToType (without_presence d) False st"
    using descToType_presence [of d False st] by simp
  show ?thesis
    by (intro conjI) (fact c1 c2 c3 c4)+
qed

theorem required_wraps_only_in_input_position_witness:
  "presence required_string ''required'' \<and>
   descToType (without_presence required_string) True st0 = Inr (GraphQLString, st0\<lparr>idCounter := 1\<rparr>) \<and>
   \<not> is_NonNull GraphQLString \<and>
   descToType required_string True st0 =
     Inr (GraphQLNonNull 0 GraphQLString, st0\<lparr>idCounter := 1, nextRef := 1\<rparr>) \<and>
   descToType required_string False st0 = Inr (GraphQLString, st0\<lparr>idCounter := 1\<rparr>)"
proof -
  have a: "presence required_string ''required''"
    by (simp add: required_string_def presence_def)
  have b: "descToType (without_presence required_string) True st0 = Inr (GraphQLString, st0\<lparr>idCounter := 1\<rparr>)"
    by (simp add: descToType.simps required_string_def eval_defs st0_def)
  have c: "descToType (without_presence required_string) False st0 = Inr (GraphQLString, st0\<lparr>idCounter := 1\<rparr>)"
    by (simp add: descToType.simps required_string_def eval_defs st0_def)
  from required_wraps_only_in_input_position [OF a, of st0] a b c
  show ?thesis by (simp add: st0_def new_ref_def is_NonNull_def)
qed

text \<open>
  C2 as stated has every required description wrapped in input position. The array
  \<open>names_array\<close>, translated in input position, stores the type of its one item, a
  \<^verbatim>\<open>GraphQLNonNull\<close> since the item is required, under its own name \<^verbatim>\<open>InputNames\<close> (line 98).
  The object description \<open>names_object\<close> computes that name: without its flag it
  translates to the cached node, and with it line 110 throws.
\<close>

theorem required_flag_counterexample:
  "descToType names_array True st0 =
     Inr (GraphQLList 1 (GraphQLNonNull 0 GraphQLString), names_state) \<and>
   presence names_object ''required'' \<and>
   descToType (without_presence names_object) True names_state =
     Inr (GraphQLNonNull 0 GraphQLString, names_state) \<and>
   descToType names_object True names_state = Inl InvariantViolation"
  by (simp add: names_defs without_presence_def eval_defs descToType.simps)

subsection \<open>C3: forbidden children, items, branches and arguments\<close>

text \<open>
  C3, as amended. Forbidden elements never influence a translation, and a node the
  translation builds holds exactly the others:
  \<^item> translating a description, in either position, gives the same result, node and
    state, as translating it with its forbidden children, items and branches removed;
  \<^item> \<open>descsToFields\<close> (object fields in output position, root fields, the merged input
    object) returns one field for each child that is not forbidden, in order, built from
    that child, and none for a forbidden child;
  \<^item> the fields of an input object are named after exactly the children that are not
    forbidden, in order;
  \<^item> \<open>descToArgs\<close> returns arguments named after exactly the entries of the arguments
    schema that are not forbidden, in order;
  \<^item> an object node built by the translator (the name was not cached) has a field for
    exactly the children that are not forbidden, in both positions; when the name is
    cached the fields are those of the cached node, whatever the children are;
  \<^item> a union built in output position for an alternatives description, or for an array
    with more than one item kept (the name is not cached once the candidates are
    translated, and the constructor accepts it), has as candidates exactly the branches
    or items that are not forbidden, in order, and as members their translations.
\<close>

theorem forbidden_elements_absent:
  "descToType d isInput st = descToType (drop_forbidden d) isInput st \<and>
   (\<forall>fs st'. descsToFields cs st = Inr (fs, st') \<longrightarrow>
      map (\<lambda>kf. (fst kf, field_source (snd kf))) fs =
        map (\<lambda>kd. (fst kd, Some (snd kd))) (filter (\<lambda>kd. not_forbidden (snd kd)) cs)) \<and>
   (\<forall>fs st'. object_input_fields cs st = Inr (fs, st') \<longrightarrow>
      map fst fs = map fst (filter (\<lambda>kd. not_forbidden (snd kd)) cs)) \<and>
   (\<forall>as st'. descToArgs d st = Inr (as, st') \<longrightarrow>
      map_option (map fst) as =
        map_option (\<lambda>schema. map fst (filter (\<lambda>kd. not_forbidden (snd kd)) schema))
          (first_meta_args d)) \<and>
   (\<forall>n st1 ty st'.
      type d = ''object'' \<and> typeName_of d isInput st = (n, st1) \<and> cachedTypes st1 n = None \<and>
      descToType d isInput st = Inr (ty, st') \<longrightarrow>
      map fst (type_fields ty) = map fst (filter (\<lambda>kd. not_forbidden (snd kd)) (children d))) \<and>
   (\<forall>n st1 t ty st'.
      type d = ''object'' \<and> typeName_of d isInput st = (n, st1) \<and> cachedTypes st1 n = Some t \<and>
      descToType d isInput st = Inr (ty, st') \<longrightarrow>
      type_fields ty = type_fields t) \<and>
   (\<forall>alts n st1 tys st2.
      type d = ''alternatives'' \<and> alternatives d = Some alts \<and>
      typeName_of d False st = (n, st1) \<and>
      map_descToType (filter not_forbidden alts) False st1 = Inr (tys, st2) \<and>
      cachedTypes st2 n = None \<and> valid_type_name n \<longrightarrow>
      (\<exists>st'. descToType d False st =
         Inr (GraphQLUnionType (nextRef st2) n (description d) tys (filter not_forbidden alts),
              st'))) \<and>
   (\<forall>its n st1 N st2 tys st3.
      type d = ''array'' \<and> items d = Some its \<and> 1 < length (filter not_forbidden its) \<and>
      typeName_of d False st = (n, st1) \<and>
      compositeName (filter not_forbidden its) False st1 = (N, st2) \<and>
      map_descToType (filter not_forbidden its) False st2 = Inr (tys, st3) \<and>
      cachedTypes st3 N = None \<and> valid_type_name N \<longrightarrow>
      (\<exists>r st'. descToType d False st =
         Inr (GraphQLList r
                (GraphQLUnionType (nextRef st3) N (description d) tys
                   (filter not_forbidden its)), st')))"
proof (intro conjI allI impI)
  show "descToType d isInput st = descToType (drop_forbidden d) isInput st"
    by (simp add: descToType_drop_forbidden)
next
  fix fs st'
  assume "descsToFields cs st = Inr (fs, st')"
  then show "map (\<lambda>kf. (fst kf, field_source (snd kf))) fs =
        map (\<lambda>kd. (fst kd, Some (snd kd))) (filter (\<lambda>kd. not_forbidden (snd kd)) cs)"
    by (rule descsToFields_sources)
next
  fix fs st'
  assume "object_input_fields cs st = Inr (fs, st')"
  then show "map fst fs = map fst (filter (\<lambda>kd. not_forbidden (snd kd)) cs)"
    by (rule object_input_fields_keys)
next
  fix as st'
  assume "descToArgs d st = Inr (as, st')"
  then show "map_option (map fst) as =
        map_option (\<lambda>schema. map fst (filter (\<lambda>kd. not_forbidden (snd kd)) schema))
          (first_meta_args d)"
    by (rule descToArgs_keys)
next
  fix n st1 ty st'
  assume "type d = ''object'' \<and> typeName_of d isInput st = (n, st1) \<and> cachedTypes st1 n = None \<and>
      descToType d isInput st = Inr (ty, st')"
  then show "map fst (type_fields ty) = map fst (filter (\<lambda>kd. not_forbidden (snd kd)) (children d))"
    using object_fields_keys by blast
next
  fix n st1 t ty st'
  assume a: "type d = ''object'' \<and> typeName_of d isInput st = (n, st1) \<and>
      cachedTypes st1 n = Some t \<and> descToType d isInput st = Inr (ty, st')"
  then have "wrap_required (isInput \<and> presence d ''required'') (Inr (t, st1)) = Inr (ty, st')"
    using descToType_object_cached [of d isInput st n st1 t] by simp
  then show "type_fields ty = type_fields t"
    by (auto dest!: wrap_required_InrD split: if_splits)
next
  fix alts n st1 tys st2
  assume "type d = ''alternatives'' \<and> alternatives d = Some alts \<and>
      typeName_of d False st = (n, st1) \<and>
      map_descToType (filter not_forbidden alts) False st1 = Inr (tys, st2) \<and>
      cachedTypes st2 n = None \<and> valid_type_name n"
  then show "\<exists>st'. descToType d False st =
         Inr (GraphQLUnionType (nextRef st2) n (description d) tys (filter not_forbidden alts),
              st')"
    using alternatives_union_members by blast
next
  fix its n st1 N st2 tys st3
  assume a: "type d = ''array'' \<and> items d = Some its \<and> 1 < length (filter not_forbidden its) \<and>
      typeName_of d False st = (n, st1) \<and>
      compositeName (filter not_forbidden its) False st1 = (N, st2) \<and>
      map_descToType (filter not_forbidden its) False st2 = Inr (tys, st3) \<and>
      cachedTypes st3 N = None \<and> valid_type_name N"
  then have "length (filter not_forbidden its) \<noteq> 1" by simp
  with a show "\<exists>r st'. descToType d False st =
         Inr (GraphQLList r
                (GraphQLUnionType (nextRef st3) N (description d) tys
                   (filter not_forbidden its)), st')"
    using array_union_members by blast
qed

theorem forbidden_elements_absent_witness:
  "type person_desc = ''object'' \<and>
   typeName_of person_desc False st0 = (''Person'', st0) \<and>
   cachedTypes st0 ''Person'' = None \<and>
   descToType person_desc False st0 = Inr (person_type, person_state) \<and>
   map_of (children person_desc) ''secret'' = Some forbidden_boolean \<and>
   presence forbidden_boolean ''forbidden'' \<and>
   map fst (type_fields person_type) = [''name'', ''age''] \<and>
   descToType (drop_forbidden person_desc) False st0 = Inr (person_type, person_state)"
proof -
  have h1: "type person_desc = ''object''"
    by (simp add: person_desc_def)
  have h2: "typeName_of person_desc False st0 = (''Person'', st0)"
    by (simp add: person_desc_def eval_defs)
  have h3: "cachedTypes st0 ''Person'' = None"
    by (simp add: st0_def)
  have h4: "descToType person_desc False st0 = Inr (person_type, person_state)"
    by (simp add: person_defs eval_defs descToType.simps descToArgs.simps)
  have h5: "map_of (children person_desc) ''secret'' = Some forbidden_boolean"
    "presence forbidden_boolean ''forbidden''"
    by (simp_all add: person_desc_def forbidden_boolean_def presence_def)
  note inst = forbidden_elements_absent [of person_desc False st0 "[]"]
  have "\<forall>n st1 ty st'.
      type person_desc = ''object'' \<and> typeName_of person_desc False st0 = (n, st1) \<and>
      cachedTypes st1 n = None \<and> descToType person_desc False st0 = Inr (ty, st') \<longrightarrow>
      map fst (type_fields ty) =
        map fst (filter (\<lambda>kd. not_forbidden (snd kd)) (children person_desc))"
    by (rule inst [THEN conjunct2, THEN conjunct2, THEN conjunct2, THEN conjunct2, THEN conjunct1])
  with h1 h2 h3 h4 have "map fst (type_fields person_type) =
        map fst (filter (\<lambda>kd. not_forbidden (snd kd)) (children person_desc))"
    by blast
  then have a: "map fst (type_fields person_type) = [''name'', ''age'']"
    by (simp add: person_desc_def string_desc_def number_desc_def forbidden_boolean_def
        not_forbidden_def presence_def)
  have "descToType person_desc False st0 = descToType (drop_forbidden person_desc) False st0"
    by (rule inst [THEN conjunct1])
  with h4 have b: "descToType (drop_forbidden person_desc) False st0 = Inr (person_type, person_state)"
    by simp
  show ?thesis
    by (intro conjI) (fact h1 h2 h3 h4 h5 a b)+
qed

text \<open>
  C3 as stated speaks of every object field. Once \<open>person_desc\<close> is translated, the
  object description \<open>masked_contact\<close>, which carries the same name, translates to the
  cached node (line 61): that node has a field \<^verbatim>\<open>name\<close>, which \<open>masked_contact\<close> forbids,
  and no field \<^verbatim>\<open>email\<close>, which it does not forbid.
\<close>

theorem forbidden_elements_counterexample:
  "descToType person_desc False st0 = Inr (person_type, person_state) \<and>
   children masked_contact = [(''name'', forbidden_boolean), (''email'', string_desc)] \<and>
   presence forbidden_boolean ''forbidden'' \<and> \<not> presence string_desc ''forbidden'' \<and>
   descToType masked_contact False person_state = Inr (person_type, person_state) \<and>
   map fst (type_fields person_type) = [''name'', ''age'']"
  by (simp add: person_defs node_defs eval_defs descToType.simps descToArgs.simps)

subsection \<open>C4: the resolver wrapper\<close>



subsection \<open>C5: the name of a composite type\<close>

text \<open>
  C5, as amended. Let a description translate successfully, and let \<open>n\<close> be the name line 47
  computes for it.
  \<^item> If it is an array with more than one item that is not forbidden, \<open>kept\<close>, then lines
    88-95 compute one component per item of \<open>kept\<close>, in list order, each after \<^verbatim>\<open>Input\<close> in
    input position, and join them with \<^verbatim>\<open>Or\<close>. The component of an item without a name in
    its first annotation is the capitalized kind of the item, and \<^verbatim>\<open>Anon\<close> with a counter
    value in place of an empty kind. The result is a list of the node
    \<open>makeArrayAlternativeType\<close> returns for the joined name, and that node carries the
    joined name when it is newly built.
  \<^item> If it is an alternatives description, no composite name is computed: the node is the
    one \<open>makeArrayAlternativeType\<close> returns for the description's own name \<open>n\<close> (its first
    annotation's name, or \<^verbatim>\<open>Anon\<close> and the next counter value, after \<^verbatim>\<open>Input\<close> in input
    position), and a newly built node is named \<open>n\<close>.
  Nothing is said of the component of an item that carries a name annotation.
\<close>

theorem composite_type_name:
  assumes "typeName_of d isInput st = (n, st1)"
    and "descToType d isInput st = Inr (ty, st')"
  shows "(type d = ''array'' \<and> items d = Some its \<and> kept = filter not_forbidden its \<and>
          1 < length kept \<longrightarrow>
            (\<exists>ns st2 r t s'.
               item_names kept isInput st1 = (ns, st2) \<and> length ns = length kept \<and>
               (\<forall>i<length kept. \<exists>c. ns ! i = input_prefix isInput @ c) \<and>
               (\<forall>i<length kept. first_meta_name (kept ! i) = None \<longrightarrow>
                  (if capitalize (type (kept ! i)) \<noteq> []
                   then ns ! i = input_prefix isInput @ capitalize (type (kept ! i))
                   else \<exists>c. ns ! i = input_prefix isInput @ ''Anon'' @ show_nat c)) \<and>
               makeArrayAlternativeType isInput (join ''Or'' ns) d kept st2 = Inr (t, s') \<and>
               (ty = GraphQLList r t \<or> (\<exists>r'. ty = GraphQLNonNull r' (GraphQLList r t))) \<and>
               (\<forall>types s1. map_descToType kept isInput st2 = Inr (types, s1) \<and>
                   cachedTypes s1 (join ''Or'' ns) = None \<longrightarrow>
                   type_name t = Some (join ''Or'' ns)))) \<and>
         (type d = ''alternatives'' \<and> alternatives d = Some alts \<and>
          kept = filter not_forbidden alts \<longrightarrow>
            n = input_prefix isInput @
              (case first_meta_name d of
                 None \<Rightarrow> ''Anon'' @ show_nat (idCounter st + 1)
               | Some nm \<Rightarrow> if nm \<noteq> [] then nm else ''Anon'' @ show_nat (idCounter st + 1)) \<and>
            (\<exists>t s'.
               makeArrayAlternativeType isInput n d kept st1 = Inr (t, s') \<and>
               (ty = t \<or> (\<exists>r'. ty = GraphQLNonNull r' t)) \<and>
               (\<forall>types s1. map_descToType kept isInput st1 = Inr (types, s1) \<and>
                   cachedTypes s1 n = None \<longrightarrow> type_name t = Some n)))"
proof (intro conjI impI)
  assume a: "type d = ''array'' \<and> items d = Some its \<and> kept = filter not_forbidden its \<and>
          1 < length kept"
  then have ta: "type d = ''array''" and it: "items d = Some its"
    and ln: "length (filter not_forbidden its) \<noteq> 1" and k: "kept = filter not_forbidden its"
    by auto
  obtain ns st2 where nm: "item_names kept isInput st1 = (ns, st2)"
    by (cases "item_names kept isInput st1")
  define N where "N = join ''Or'' ns"
  have cn: "compositeName (filter not_forbidden its) isInput st1 = (N, st2)"
    using nm k by (simp add: compositeName_def N_def)
  have len: "length ns = length kept"
    using item_names_length [of kept isInput st1] nm by simp
  have pre: "\<forall>i<length kept. \<exists>c. ns ! i = input_prefix isInput @ c"
  proof (intro allI impI)
    fix i
    assume i: "i < length kept"
    from item_names_nth [OF i, of isInput st1] nm obtain s where
      "ns ! i = fst (item_name (kept ! i) isInput s)" by auto
    then show "\<exists>c. ns ! i = input_prefix isInput @ c"
      using item_name_prefix [of "kept ! i" isInput s] by simp
  qed
  have comp: "\<forall>i<length kept. first_meta_name (kept ! i) = None \<longrightarrow>
                  (if capitalize (type (kept ! i)) \<noteq> []
                   then ns ! i = input_prefix isInput @ capitalize (type (kept ! i))
                   else \<exists>c. ns ! i = input_prefix isInput @ ''Anon'' @ show_nat c)"
  proof (intro allI impI)
    fix i
    assume i: "i < length kept" and un: "first_meta_name (kept ! i) = None"
    from item_names_nth [OF i, of isInput st1] nm obtain s where
      "ns ! i = fst (item_name (kept ! i) isInput s)" by auto
    then show "if capitalize (type (kept ! i)) \<noteq> []
                   then ns ! i = input_prefix isInput @ capitalize (type (kept ! i))
                   else \<exists>c. ns ! i = input_prefix isInput @ ''Anon'' @ show_nat c"
      using item_name_unnamed [OF un, of isInput s] by auto
  qed
  obtain ty0 st0 where
    core: "(case makeArrayAlternativeType isInput N d kept st2 of
          Inl e \<Rightarrow> Inl e
        | Inr (ty, st3) \<Rightarrow>
            Inr (GraphQLList (nextRef (cache_if_absent N ty st3)) ty,
                 new_ref (cache_if_absent N ty st3))) = Inr (ty0, st0)"
    and w: "if isInput \<and> presence d ''required''
         then \<not> is_NonNull ty0 \<and> ty = GraphQLNonNull (nextRef st0) ty0 \<and> st' = new_ref st0
         else ty = ty0 \<and> st' = st0"
    using assms(2) descToType_array_many [OF ta assms(1) it ln cn] k
    by (auto dest!: wrap_required_InrD)
  then obtain t st3 where m: "makeArrayAlternativeType isInput N d kept st2 = Inr (t, st3)"
    and t0: "ty0 = GraphQLList (nextRef (cache_if_absent N t st3)) t"
    by (auto split: sum.splits)
  have shape: "ty = GraphQLList (nextRef (cache_if_absent N t st3)) t \<or>
      (\<exists>r'. ty = GraphQLNonNull r' (GraphQLList (nextRef (cache_if_absent N t st3)) t))"
    using t0 w by (auto split: if_splits)
  have named: "\<forall>types s1. map_descToType kept isInput st2 = Inr (types, s1) \<and>
                   cachedTypes s1 N = None \<longrightarrow> type_name t = Some N"
    using makeArrayAlternativeType_name [OF m] by blast
  show "\<exists>ns st2 r t s'.
               item_names kept isInput st1 = (ns, st2) \<and> length ns = length kept \<and>
               (\<forall>i<length kept. \<exists>c. ns ! i = input_prefix isInput @ c) \<and>
               (\<forall>i<length kept. first_meta_name (kept ! i) = None \<longrightarrow>
                  (if capitalize (type (kept ! i)) \<noteq> []
                   then ns ! i = input_prefix isInput @ capitalize (type (kept ! i))
                   else \<exists>c. ns ! i = input_prefix isInput @ ''Anon'' @ show_nat c)) \<and>
               makeArrayAlternativeType isInput (join ''Or'' ns) d kept st2 = Inr (t, s') \<and>
               (ty = GraphQLList r t \<or> (\<exists>r'. ty = GraphQLNonNull r' (GraphQLList r t))) \<and>
               (\<forall>types s1. map_descToType kept isInput st2 = Inr (types, s1) \<and>
                   cachedTypes s1 (join ''Or'' ns) = None \<longrightarrow>
                   type_name t = Some (join ''Or'' ns))"
    using nm len pre comp m shape named unfolding N_def
    by (intro exI [of _ ns] exI [of _ st2] exI [of _ "nextRef (cache_if_absent (join ''Or'' ns) t st3)"]
        exI [of _ t] exI [of _ st3] conjI)
next
  assume a: "type d = ''alternatives'' \<and> alternatives d = Some alts \<and>
          kept = filter not_forbidden alts"
  then have ta: "type d = ''alternatives''" and al: "alternatives d = Some alts"
    and k: "kept = filter not_forbidden alts"
    by auto
  show "n = input_prefix isInput @
              (case first_meta_name d of
                 None \<Rightarrow> ''Anon'' @ show_nat (idCounter st + 1)
               | Some nm \<Rightarrow> if nm \<noteq> [] then nm else ''Anon'' @ show_nat (idCounter st + 1))"
    using assms(1) by (rule typeName_of_value)
  obtain ty0 st0 where
    core: "(case makeArrayAlternativeType isInput n d kept st1 of
              Inl e \<Rightarrow> Inl e
            | Inr (ty, st2) \<Rightarrow> Inr (ty, cache_if_absent n ty st2)) = Inr (ty0, st0)"
    and w: "if isInput \<and> presence d ''required''
         then \<not> is_NonNull ty0 \<and> ty = GraphQLNonNull (nextRef st0) ty0 \<and> st' = new_ref st0
         else ty = ty0 \<and> st' = st0"
    using assms(2) descToType_alternatives [OF ta assms(1) al] k
    by (auto dest!: wrap_required_InrD)
  then obtain st2 where m: "makeArrayAlternativeType isInput n d kept st1 = Inr (ty0, st2)"
    by (auto split: sum.splits)
  show "\<exists>t s'.
               makeArrayAlternativeType isInput n d kept st1 = Inr (t, s') \<and>
               (ty = t \<or> (\<exists>r'. ty = GraphQLNonNull r' t)) \<and>
               (\<forall>types s1. map_descToType kept isInput st1 = Inr (types, s1) \<and>
                   cachedTypes s1 n = None \<longrightarrow> type_name t = Some n)"
    using m w makeArrayAlternativeType_name [OF m]
    by (intro exI [of _ ty0] exI [of _ st2]) (auto split: if_splits)
qed

theorem composite_type_name_witness:
  "typeName_of cat_or_point False st0 = (''Anon1'', st0\<lparr>idCounter := 1\<rparr>) \<and>
   descToType cat_or_point False st0 = Inr (GraphQLList 3 cat_or_point_union, cat_or_point_state) \<and>
   type cat_or_point = ''array'' \<and>
   items cat_or_point = Some [cat_desc, point_desc] \<and>
   [cat_desc, point_desc] = filter not_forbidden [cat_desc, point_desc] \<and>
   1 < length [cat_desc, point_desc] \<and>
   first_meta_name cat_desc = Some ''Cat'' \<and> first_meta_name point_desc = None \<and>
   capitalize (type point_desc) = ''Object'' \<and>
   item_names [cat_desc, point_desc] False (st0\<lparr>idCounter := 1\<rparr>)
     = ([''Object'', ''Object''], st0\<lparr>idCounter := 1\<rparr>) \<and>
   [''Object'', ''Object''] ! 1 = input_prefix False @ capitalize (type point_desc) \<and>
   type_name cat_or_point_union = Some (join ''Or'' [''Object'', ''Object'']) \<and>
   typeName_of shapes_desc False st0 = (''Anon1'', st0\<lparr>idCounter := 1\<rparr>) \<and>
   descToType shapes_desc False st0 = Inr (shapes_union, shapes_state) \<and>
   type shapes_desc = ''alternatives'' \<and>
   alternatives shapes_desc = Some [point_desc, circle_desc] \<and>
   ''Anon1'' = input_prefix False @ ''Anon'' @ show_nat (idCounter st0 + 1)"
proof -
  have h1: "typeName_of cat_or_point False st0 = (''Anon1'', st0\<lparr>idCounter := 1\<rparr>)"
    by (simp add: cat_or_point_def st0_def eval_defs)
  have h2: "descToType cat_or_point False st0
      = Inr (GraphQLList 3 cat_or_point_union, cat_or_point_state)"
    by (simp add: shapes_defs pets_defs eval_defs descToType.simps
        makeArrayAlternativeType.simps descToArgs.simps numeral_2_eq_2)
  have h3: "type cat_or_point = ''array''"
    "items cat_or_point = Some [cat_desc, point_desc]"
    "[cat_desc, point_desc] = filter not_forbidden [cat_desc, point_desc]"
    "1 < length [cat_desc, point_desc]"
    by (simp_all add: cat_or_point_def cat_desc_def point_desc_def eval_defs)
  have h4: "first_meta_name cat_desc = Some ''Cat''" "first_meta_name point_desc = None"
    "capitalize (type point_desc) = ''Object''"
    by (simp_all add: cat_desc_def point_desc_def eval_defs)
  have h5: "item_names [cat_desc, point_desc] False (st0\<lparr>idCounter := 1\<rparr>)
     = ([''Object'', ''Object''], st0\<lparr>idCounter := 1\<rparr>)"
    by (simp add: cat_desc_def point_desc_def st0_def eval_defs)
  have g1: "typeName_of shapes_desc False st0 = (''Anon1'', st0\<lparr>idCounter := 1\<rparr>)"
    by (simp add: shapes_desc_def st0_def eval_defs)
  have g2: "descToType shapes_desc False st0 = Inr (shapes_union, shapes_state)"
    by (simp add: shapes_defs number_desc_def st0_def eval_defs descToType.simps
        makeArrayAlternativeType.simps descToArgs.simps numeral_2_eq_2)
  have g3: "type shapes_desc = ''alternatives''"
    "alternatives shapes_desc = Some [point_desc, circle_desc]"
    by (simp_all add: shapes_desc_def)
  have g4: "[point_desc, circle_desc] = filter not_forbidden [point_desc, circle_desc]"
    by (simp add: point_desc_def circle_desc_def eval_defs)
  from composite_type_name [OF h1 h2, of "[cat_desc, point_desc]" "[cat_desc, point_desc]"] h3
  obtain ns st2 where
    n1: "item_names [cat_desc, point_desc] False (st0\<lparr>idCounter := 1\<rparr>) = (ns, st2)"
    and n2: "\<forall>i<length [cat_desc, point_desc].
       first_meta_name ([cat_desc, point_desc] ! i) = None \<longrightarrow>
         (if capitalize (type ([cat_desc, point_desc] ! i)) \<noteq> []
          then ns ! i = input_prefix False @ capitalize (type ([cat_desc, point_desc] ! i))
          else \<exists>c. ns ! i = input_prefix False @ ''Anon'' @ show_nat c)"
    by blast
  from n1 h5 have ns: "ns = [''Object'', ''Object'']" by simp
  from n2 [rule_format, of 1] h4 ns
  have a: "[''Object'', ''Object''] ! 1 = input_prefix False @ capitalize (type point_desc)"
    by simp
  have a': "type_name cat_or_point_union = Some (join ''Or'' [''Object'', ''Object''])"
    by (simp add: cat_or_point_union_def type_name_def)
  from composite_type_name [OF g1 g2, of _ "[point_desc, circle_desc]"
      "[point_desc, circle_desc]"] g3 g4
  have "''Anon1'' = input_prefix False @
              (case first_meta_name shapes_desc of
                 None \<Rightarrow> ''Anon'' @ show_nat (idCounter st0 + 1)
               | Some nm \<Rightarrow> if nm \<noteq> [] then nm else ''Anon'' @ show_nat (idCounter st0 + 1))"
    by blast
  then have b: "''Anon1'' = input_prefix False @ ''Anon'' @ show_nat (idCounter st0 + 1)"
    by (simp add: first_meta_name_def shapes_desc_def)
  show ?thesis
    by (intro conjI) (fact h1 h2 h3 h4 h5 g1 g2 g3 a a' b)+
qed

text \<open>
  C5 as stated gives an alternatives description the composite name of its branches. The
  alternatives of two objects, neither named, translate in output position to a union
  named \<^verbatim>\<open>Anon1\<close>, where the convention of arrays would give \<^verbatim>\<open>ObjectOrObject\<close>.
\<close>

theorem composite_type_name_counterexample:
  "translated (descToType shapes_desc False st0) = Some shapes_union \<and>
   type_name shapes_union = Some ''Anon1'' \<and>
   type shapes_desc = ''alternatives'' \<and>
   filter not_forbidden (the (alternatives shapes_desc)) = [point_desc, circle_desc] \<and>
   first_meta_name point_desc = None \<and> first_meta_name circle_desc = None \<and>
   join ''Or'' (map (\<lambda>item. capitalize (type item)) [point_desc, circle_desc])
     = ''ObjectOrObject''"
  by (simp add: translated_def type_name_def shapes_defs number_desc_def st0_def eval_defs
      descToType.simps makeArrayAlternativeType.simps descToArgs.simps numeral_2_eq_2)

subsection \<open>C6: which member of a union a value resolves to\<close>

text \<open>
  C6, as amended. Take a call of \<open>makeArrayAlternativeType\<close> in output position whose
  candidates translate and whose name is not cached. It builds a union when the
  constructor accepts the name, and throws otherwise. A candidate matches a value when
  its first annotation carries an \<^verbatim>\<open>isTypeOf\<close> predicate that holds of the value, or
  carries none and the list of the value's own keys equals the list of the candidate's
  child names, in the same order. \<^verbatim>\<open>resolveType\<close> of the union returns the translated type
  of the first candidate, in list order, that matches, and nothing when none matches. So a
  candidate whose predicate holds is returned unless an earlier candidate matches, by
  predicate or by keys.
\<close>

theorem union_resolveType_first_match:
  assumes "map_descToType its False st = Inr (types, st1)" and "cachedTypes st1 n = None"
  shows "(valid_type_name n \<longrightarrow>
          (\<exists>u st'. makeArrayAlternativeType False n d its st = Inr (u, st') \<and>
             (\<forall>i<length its.
                (case first_meta_isTypeOf (its ! i) of
                   Some isTypeOf \<Rightarrow> isTypeOf val
                 | None \<Rightarrow> keys val = map fst (children (its ! i))) \<and>
                (\<forall>j<i. \<not> (case first_meta_isTypeOf (its ! j) of
                             Some isTypeOf \<Rightarrow> isTypeOf val
                           | None \<Rightarrow> keys val = map fst (children (its ! j))))
                \<longrightarrow> union_resolveType u val = Some (types ! i)) \<and>
             ((\<forall>i<length its.
                 \<not> (case first_meta_isTypeOf (its ! i) of
                       Some isTypeOf \<Rightarrow> isTypeOf val
                     | None \<Rightarrow> keys val = map fst (children (its ! i))))
                \<longrightarrow> union_resolveType u val = None))) \<and>
         (\<not> valid_type_name n \<longrightarrow>
            makeArrayAlternativeType False n d its st = Inl InvariantViolation)"
proof (intro conjI impI)
  assume v: "valid_type_name n"
  have len: "length types = length its" using assms(1) by (rule map_descToType_length)
  have res: "makeArrayAlternativeType False n d its st =
      Inr (GraphQLUnionType (nextRef st1) n (description d) types its, new_ref st1)"
    using assms v
    by (simp add: makeArrayAlternativeType.simps [of False n d its st] new_GraphQLUnionType_def)
  have u: "union_resolveType (GraphQLUnionType (nextRef st1) n (description d) types its) val
      = resolveType its types val"
    by (simp add: union_resolveType_def)
  have f: "\<forall>i<length its. item_matches (its ! i) val \<and> (\<forall>j<i. \<not> item_matches (its ! j) val)
      \<longrightarrow> union_resolveType (GraphQLUnionType (nextRef st1) n (description d) types its) val
            = Some (types ! i)"
    using resolveType_first [OF len, of _ val] u by simp
  have g: "(\<forall>i<length its. \<not> item_matches (its ! i) val)
      \<longrightarrow> union_resolveType (GraphQLUnionType (nextRef st1) n (description d) types its) val = None"
    using resolveType_none [OF len, of val] u by simp
  show "\<exists>u st'. makeArrayAlternativeType False n d its st = Inr (u, st') \<and>
             (\<forall>i<length its.
                (case first_meta_isTypeOf (its ! i) of
                   Some isTypeOf \<Rightarrow> isTypeOf val
                 | None \<Rightarrow> keys val = map fst (children (its ! i))) \<and>
                (\<forall>j<i. \<not> (case first_meta_isTypeOf (its ! j) of
                             Some isTypeOf \<Rightarrow> isTypeOf val
                           | None \<Rightarrow> keys val = map fst (children (its ! j))))
                \<longrightarrow> union_resolveType u val = Some (types ! i)) \<and>
             ((\<forall>i<length its.
                 \<not> (case first_meta_isTypeOf (its ! i) of
                       Some isTypeOf \<Rightarrow> isTypeOf val
                     | None \<Rightarrow> keys val = map fst (children (its ! i))))
                \<longrightarrow> union_resolveType u val = None)"
    using res f g unfolding item_matches_def by blast
next
  assume "\<not> valid_type_name n"
  then show "makeArrayAlternativeType False n d its st = Inl InvariantViolation"
    using assms
    by (simp add: makeArrayAlternativeType.simps [of False n d its st] new_GraphQLUnionType_def)
qed

theorem union_resolveType_first_match_witness:
  "map_descToType [cat_desc, dog_desc] False st0 = Inr ([cat_type, dog_type], pets_state) \<and>
   cachedTypes pets_state ''Pet'' = None \<and> valid_type_name ''Pet'' \<and>
   first_meta_isTypeOf cat_desc = None \<and>
   keys (JObj [(''name'', JStr ''Tom''), (''kind'', JStr ''cat'')]) = map fst (children cat_desc) \<and>
   makeArrayAlternativeType False ''Pet'' pets_desc [cat_desc, dog_desc] st0 =
     Inr (GraphQLUnionType 2 ''Pet'' None [cat_type, dog_type] [cat_desc, dog_desc],
          new_ref pets_state) \<and>
   union_resolveType (GraphQLUnionType 2 ''Pet'' None [cat_type, dog_type] [cat_desc, dog_desc])
     (JObj [(''name'', JStr ''Tom''), (''kind'', JStr ''cat'')]) = Some cat_type"
proof -
  have h1: "map_descToType [cat_desc, dog_desc] False st0 = Inr ([cat_type, dog_type], pets_state)"
    by (simp add: pets_defs eval_defs descToType.simps descToArgs.simps)
  have h2: "cachedTypes pets_state ''Pet'' = None"
    by (simp add: pets_state_def)
  have h3: "first_meta_isTypeOf cat_desc = None"
    "keys (JObj [(''name'', JStr ''Tom''), (''kind'', JStr ''cat'')]) = map fst (children cat_desc)"
    by (simp_all add: cat_desc_def first_meta_isTypeOf_def keys_def)
  have v: "valid_type_name ''Pet''"
    by (simp add: valid_type_name_def name_start_def name_continue_def)
  have res: "makeArrayAlternativeType False ''Pet'' pets_desc [cat_desc, dog_desc] st0 =
     Inr (GraphQLUnionType 2 ''Pet'' None [cat_type, dog_type] [cat_desc, dog_desc],
          new_ref pets_state)"
    using h1 h2 v
    by (simp add: makeArrayAlternativeType.simps pets_desc_def pets_state_def
        new_GraphQLUnionType_def)
  from union_resolveType_first_match [OF h1 h2, of pets_desc
      "JObj [(''name'', JStr ''Tom''), (''kind'', JStr ''cat'')]"] h2 v
  obtain u st' where a: "makeArrayAlternativeType False ''Pet'' pets_desc [cat_desc, dog_desc] st0
        = Inr (u, st')"
    and b: "\<forall>i<length [cat_desc, dog_desc].
              (case first_meta_isTypeOf ([cat_desc, dog_desc] ! i) of
                 Some isTypeOf \<Rightarrow> isTypeOf (JObj [(''name'', JStr ''Tom''), (''kind'', JStr ''cat'')])
               | None \<Rightarrow> keys (JObj [(''name'', JStr ''Tom''), (''kind'', JStr ''cat'')])
                    = map fst (children ([cat_desc, dog_desc] ! i))) \<and>
              (\<forall>j<i. \<not> (case first_meta_isTypeOf ([cat_desc, dog_desc] ! j) of
                           Some isTypeOf \<Rightarrow> isTypeOf (JObj [(''name'', JStr ''Tom''), (''kind'', JStr ''cat'')])
                         | None \<Rightarrow> keys (JObj [(''name'', JStr ''Tom''), (''kind'', JStr ''cat'')])
                              = map fst (children ([cat_desc, dog_desc] ! j))))
              \<longrightarrow> union_resolveType u (JObj [(''name'', JStr ''Tom''), (''kind'', JStr ''cat'')])
                    = Some ([cat_type, dog_type] ! i)"
    by blast
  from b [rule_format, of 0] h3
  have "union_resolveType u (JObj [(''name'', JStr ''Tom''), (''kind'', JStr ''cat'')]) = Some cat_type"
    by simp
  with a res h1 h2 h3 v show ?thesis by simp
qed

text \<open>
  C6 as stated fails twice on the union of \<open>cat_desc\<close> and \<open>dog_desc\<close>. The value
  \<^verbatim>\<open>{name: 'Rex', kind: 'dog'}\<close> satisfies the predicate of the second candidate, yet the
  first one is returned, because its keys match and it comes first. The value
  \<^verbatim>\<open>{kind: 'cat', name: 'Tom'}\<close> has exactly the key set of the first candidate, which has
  no predicate, yet nothing is returned: \<^verbatim>\<open>isEqual\<close> compares the two key arrays in order.
\<close>

theorem union_resolveType_counterexample:
  "translated (descToType pets_desc False st0) = Some pets_union \<and>
   first_meta_isTypeOf dog_desc = Some is_dog \<and>
   is_dog (JObj [(''name'', JStr ''Rex''), (''kind'', JStr ''dog'')]) \<and>
   union_resolveType pets_union (JObj [(''name'', JStr ''Rex''), (''kind'', JStr ''dog'')])
     = Some cat_type \<and>
   cat_type \<noteq> dog_type \<and>
   first_meta_isTypeOf cat_desc = None \<and>
   set (keys (JObj [(''kind'', JStr ''cat''), (''name'', JStr ''Tom'')]))
     = set (map fst (children cat_desc)) \<and>
   union_resolveType pets_union (JObj [(''kind'', JStr ''cat''), (''name'', JStr ''Tom'')]) = None"
  by (simp add: translated_def pets_desc_def cat_desc_def dog_desc_def cat_type_def dog_type_def
      pets_union_def pet_fields_def is_dog_def
      string_desc_def number_desc_def st0_def eval_defs descToType.simps
      makeArrayAlternativeType.simps descToArgs.simps union_resolveType_def resolveType_def
      item_matches_def keys_def nth_opt_def Let_def insert_commute)

subsection \<open>C7: an array with one item that is not forbidden\<close>

text \<open>
  C7. Let an array description have exactly one item left once the forbidden items are
  filtered out. Its translation fails exactly when the translation of that item (in the
  same position, in the state the name computation leaves) fails, with the same error;
  otherwise the result is a list node whose element is the translation of that item
  itself: no union, no merged input object. Line 110 then puts the list inside a
  \<^verbatim>\<open>GraphQLNonNull\<close> when the array is required in input position, as for every kind; a list
  is never refused there.
\<close>

theorem array_single_item_is_list:
  assumes "type d = ''array''" and "items d = Some its"
    and "filter not_forbidden its = [item]"
  shows "(\<forall>e. descToType item isInput (snd (typeName_of d isInput st)) = Inl e \<longrightarrow>
            descToType d isInput st = Inl e) \<and>
         (\<forall>ty_item st2.
            descToType item isInput (snd (typeName_of d isInput st)) = Inr (ty_item, st2) \<longrightarrow>
            (\<exists>r r' st'. descToType d isInput st =
               Inr (if isInput \<and> presence d ''required''
                    then GraphQLNonNull r' (GraphQLList r ty_item)
                    else GraphQLList r ty_item, st')))"
proof -
  obtain n st1 where tn: "typeName_of d isInput st = (n, st1)"
    by (cases "typeName_of d isInput st")
  show ?thesis
    unfolding descToType_array_one [OF assms(1) tn assms(2) assms(3)] tn
    by (auto simp: wrap_required_Inr is_NonNull_def)
qed

theorem array_single_item_is_list_witness:
  "type tags_array = ''array'' \<and> items tags_array = Some [forbidden_boolean, string_desc] \<and>
   filter not_forbidden [forbidden_boolean, string_desc] = [string_desc] \<and>
   descToType string_desc False (snd (typeName_of tags_array False st0)) = Inr (GraphQLString, st0\<lparr>idCounter := 1\<rparr>) \<and>
   (\<exists>r st'. descToType tags_array False st0 = Inr (GraphQLList r GraphQLString, st'))"
  using array_single_item_is_list [of tags_array "[forbidden_boolean, string_desc]" string_desc False st0]
  by (simp add: tags_array_def forbidden_boolean_def string_desc_def st0_def eval_defs
      descToType.simps)

subsection \<open>C8: the merged input object\<close>



subsection \<open>C9: a description of an unknown kind\<close>

text \<open>
  C9, as amended. The \<^verbatim>\<open>type\<close> table of \<open>descToType\<close> has seven entries. For a
  description whose kind is none of them the table lookup gives \<^verbatim>\<open>undefined\<close>, and calling
  it throws the \<^verbatim>\<open>TypeError\<close> of any call of a non-function: translation fails, in either
  position and in every state, but with the generic error, not with a report of its own.
  A field synthesizer that meets such a description among its fields, not forbidden,
  fails. So a build that has such a description as a field of the query root or of the
  mutation root, not forbidden, returns no schema, whatever the other fields are and
  whatever the schema constructor would do.
\<close>

theorem unsupported_kind_aborts:
  assumes "type d \<notin> {''boolean'', ''date'', ''string'', ''number'', ''object'', ''array'',
     ''alternatives''}"
  shows "descToType d isInput st = Inl TypeError \<and>
    ((k, d) \<in> set cs \<and> not_forbidden d \<longrightarrow> (\<exists>e. descsToFields cs st = Inl e)) \<and>
    ((k, d) \<in> set cs \<and> not_forbidden d \<longrightarrow>
       (\<exists>e. joiql newGraphQLSchema \<lparr>query = Some cs, mutation = m\<rparr> st = Inl e)) \<and>
    ((k, d) \<in> set cs \<and> not_forbidden d \<longrightarrow>
       (\<exists>e. joiql newGraphQLSchema \<lparr>query = q, mutation = Some cs\<rparr> st = Inl e))"
proof -
  have a: "\<And>i s. descToType d i s = Inl TypeError"
    using assms by (rule descToType_other)
  then have b: "\<forall>s. \<exists>e. descToType d False s = Inl e" by simp
  have f: "\<exists>e. descsToFields cs s = Inl e" if "(k, d) \<in> set cs" and "not_forbidden d" for s
    using that b by (rule descsToFields_fails)
  have qr: "\<exists>e. joiql newGraphQLSchema \<lparr>query = Some cs, mutation = m\<rparr> st = Inl e"
    if "(k, d) \<in> set cs" and "not_forbidden d"
  proof -
    from f [OF that, of st] obtain e where "descsToFields cs st = Inl e" by blast
    then show ?thesis by (simp add: joiql_def)
  qed
  have mr: "\<exists>e. joiql newGraphQLSchema \<lparr>query = q, mutation = Some cs\<rparr> st = Inl e"
    if "(k, d) \<in> set cs" and "not_forbidden d"
  proof (cases "case q of
              None \<Rightarrow> Inr (None, st)
            | Some q' \<Rightarrow>
                (case descsToFields q' st of
                   Inl e \<Rightarrow> Inl e
                 | Inr (flds, st1) \<Rightarrow>
                     (case new_GraphQLObjectType ''RootQueryType'' None flds st1 of
                        Inl e \<Rightarrow> Inl e
                      | Inr (ty, st2) \<Rightarrow> Inr (Some ty, st2)))")
    case (Inl e)
    then show ?thesis by (simp add: joiql_def)
  next
    case (Inr r)
    obtain qt st2 where r: "r = (qt, st2)" by (cases r)
    from f [OF that, of st2] obtain e where "descsToFields cs st2 = Inl e" by blast
    then show ?thesis using Inr r by (simp add: joiql_def)
  qed
  show ?thesis using a f qr mr by blast
qed

theorem unsupported_kind_aborts_witness:
  "type any_desc \<notin> {''boolean'', ''date'', ''string'', ''number'', ''object'', ''array'',
     ''alternatives''} \<and> (''x'', any_desc) \<in> set [(''x'', any_desc)] \<and> not_forbidden any_desc \<and>
   descToType any_desc True st0 = Inl TypeError \<and>
   joiql Inr \<lparr>query = Some [(''x'', any_desc)], mutation = None\<rparr> st0 = Inl TypeError \<and>
   joiql Inr \<lparr>query = Some [(''hello'', hello_desc)], mutation = Some [(''x'', any_desc)]\<rparr> st0
     = Inl TypeError"
proof -
  have h1: "type any_desc \<notin> {''boolean'', ''date'', ''string'', ''number'', ''object'', ''array'',
     ''alternatives''}"
    by (simp add: any_desc_def)
  have h2: "(''x'', any_desc) \<in> set [(''x'', any_desc)]" "not_forbidden any_desc"
    by (simp_all add: any_desc_def not_forbidden_def presence_def)
  note inst = unsupported_kind_aborts [OF h1, of True st0 "''x''" "[(''x'', any_desc)]"]
  have a: "descToType any_desc True st0 = Inl TypeError"
    by (rule inst [THEN conjunct1])
  from inst [of Inr None] h2
  obtain e where "joiql Inr \<lparr>query = Some [(''x'', any_desc)], mutation = None\<rparr> st0 = Inl e"
    by blast
  moreover have "joiql Inr \<lparr>query = Some [(''x'', any_desc)], mutation = None\<rparr> st0 = Inl e
      \<Longrightarrow> e = TypeError"
    by (simp add: joiql_def any_desc_def eval_defs descToType.simps)
  ultimately have b: "joiql Inr \<lparr>query = Some [(''x'', any_desc)], mutation = None\<rparr> st0
      = Inl TypeError"
    by simp
  have c: "joiql Inr \<lparr>query = Some [(''hello'', hello_desc)], mutation = Some [(''x'', any_desc)]\<rparr> st0
     = Inl TypeError"
    by (simp add: joiql_def any_desc_def hello_desc_def number_desc_def st0_def eval_defs
        descToType.simps descToArgs.simps)
  show ?thesis
    by (intro conjI) (fact h1 h2 a b c)+
qed

text \<open>
  C9 as stated asks for an explicit unsupported-type failure. The failure of the kind
  \<^verbatim>\<open>any\<close> is the very value that an array description without \<^verbatim>\<open>items\<close> fails with
  (\<^verbatim>\<open>desc.items.filter\<close> on \<^verbatim>\<open>undefined\<close>): nothing in it reports the kind.
\<close>

theorem unsupported_kind_generic_counterexample:
  "descToType any_desc False st0 = Inl TypeError \<and>
   descToType array_without_items False st0 = descToType any_desc False st0"
  by (simp add: any_desc_def array_without_items_def descToType_other descToType_array_none)

subsection \<open>C10: the single item's type is cached under the array's own name\<close>

text \<open>
  C10, as amended. Let an array description have exactly one item that is not forbidden,
  and let \<open>n\<close> be the type name line 47 computes for the array itself: the name of its
  first annotation, or \<^verbatim>\<open>Anon\<close> and the next counter value, after \<^verbatim>\<open>Input\<close> in input
  position. If the item translates to \<open>ty_item\<close> and \<open>n\<close> is not cached at that moment, the
  translation of the array succeeds and leaves \<open>ty_item\<close> in the cache under \<open>n\<close>
  (line 98). In every state that keeps the entries of that cache, an object description
  whose computed name is \<open>n\<close> gets \<open>ty_item\<close> from the cache, not a node built from its own
  children, and so does an alternatives description whose computed name is \<open>n\<close>, once its
  branches have translated. When that description is required in input position, line
  110 passes \<open>ty_item\<close> to \<^verbatim>\<open>new GraphQLNonNull\<close>, which wraps it, or throws when \<open>ty_item\<close>
  is a \<^verbatim>\<open>GraphQLNonNull\<close> itself. An array with several items kept whose composite name is
  \<open>n\<close> gets, once its items have translated, a list of \<open>ty_item\<close>, not of a union or merged
  input object of its own.
\<close>

theorem array_single_item_cached_under_array_name:
  assumes "type d = ''array''" and "items d = Some its"
    and "filter not_forbidden its = [item]"
    and "typeName_of d isInput st = (n, st1)"
    and "descToType item isInput st1 = Inr (ty_item, st2)"
    and "cachedTypes st2 n = None"
  shows "n = input_prefix isInput @
           (case first_meta_name d of
              None \<Rightarrow> ''Anon'' @ show_nat (idCounter st + 1)
            | Some nm \<Rightarrow> if nm \<noteq> [] then nm else ''Anon'' @ show_nat (idCounter st + 1)) \<and>
         (\<exists>ty st'. descToType d isInput st = Inr (ty, st') \<and> cachedTypes st' n = Some ty_item \<and>
            (\<forall>s d' isInput' s1.
               cache_le st' s \<and> type d' = ''object'' \<and> typeName_of d' isInput' s = (n, s1) \<longrightarrow>
               descToType d' isInput' s =
                 (if isInput' \<and> presence d' ''required''
                  then (if is_NonNull ty_item then Inl InvariantViolation
                        else Inr (GraphQLNonNull (nextRef s1) ty_item, new_ref s1))
                  else Inr (ty_item, s1))) \<and>
            (\<forall>s d' isInput' alts s1 tys s2.
               cache_le st' s \<and> type d' = ''alternatives'' \<and> alternatives d' = Some alts \<and>
               typeName_of d' isInput' s = (n, s1) \<and>
               map_descToType (filter not_forbidden alts) isInput' s1 = Inr (tys, s2) \<longrightarrow>
               descToType d' isInput' s =
                 (if isInput' \<and> presence d' ''required''
                  then (if is_NonNull ty_item then Inl InvariantViolation
                        else Inr (GraphQLNonNull (nextRef s2) ty_item, new_ref s2))
                  else Inr (ty_item, s2))) \<and>
            (\<forall>s d' isInput' its' m s1 s2 tys s3.
               cache_le st' s \<and> type d' = ''array'' \<and> items d' = Some its' \<and>
               1 < length (filter not_forbidden its') \<and>
               typeName_of d' isInput' s = (m, s1) \<and>
               compositeName (filter not_forbidden its') isInput' s1 = (n, s2) \<and>
               map_descToType (filter not_forbidden its') isInput' s2 = Inr (tys, s3) \<longrightarrow>
               descToType d' isInput' s =
                 (if isInput' \<and> presence d' ''required''
                  then Inr (GraphQLNonNull (nextRef (new_ref s3)) (GraphQLList (nextRef s3) ty_item),
                            new_ref (new_ref s3))
                  else Inr (GraphQLList (nextRef s3) ty_item, new_ref s3))))"
proof -
  have name: "n = input_prefix isInput @
           (case first_meta_name d of
              None \<Rightarrow> ''Anon'' @ show_nat (idCounter st + 1)
            | Some nm \<Rightarrow> if nm \<noteq> [] then nm else ''Anon'' @ show_nat (idCounter st + 1))"
    using assms(4) by (rule typeName_of_value)
  define st3 where "st3 = cache_if_absent n ty_item st2"
  define b where "b = (isInput \<and> presence d ''required'')"
  define ty where "ty = (if b then GraphQLNonNull (nextRef (new_ref st3)) (GraphQLList (nextRef st3) ty_item)
     else GraphQLList (nextRef st3) ty_item)"
  define st' where "st' = (if b then new_ref (new_ref st3) else new_ref st3)"
  have res: "descToType d isInput st = Inr (ty, st')"
    unfolding descToType_array_one [OF assms(1) assms(4) assms(2) assms(3)]
    by (simp add: assms(5) wrap_required_Inr is_NonNull_def ty_def st'_def st3_def b_def)
  have cached: "cachedTypes st' n = Some ty_item"
    using assms(6) by (simp add: st'_def st3_def cache_if_absent_def)
  have later: "cachedTypes s n = Some ty_item" if "cache_le st' s" for s
    using that cached by (auto simp: cache_le_def map_le_def dom_def)
  have obj: "descToType d' isInput' s =
                 (if isInput' \<and> presence d' ''required''
                  then (if is_NonNull ty_item then Inl InvariantViolation
                        else Inr (GraphQLNonNull (nextRef s1) ty_item, new_ref s1))
                  else Inr (ty_item, s1))"
    if "cache_le st' s \<and> type d' = ''object'' \<and> typeName_of d' isInput' s = (n, s1)"
    for s d' isInput' s1
  proof -
    from that have o: "type d' = ''object''" and tn: "typeName_of d' isInput' s = (n, s1)"
      and c: "cachedTypes s n = Some ty_item"
      using later by blast+
    show ?thesis
      unfolding object_cached [OF o tn c] by (simp only: wrap_required_Inr)
  qed
  have alt: "descToType d' isInput' s =
                 (if isInput' \<and> presence d' ''required''
                  then (if is_NonNull ty_item then Inl InvariantViolation
                        else Inr (GraphQLNonNull (nextRef s2) ty_item, new_ref s2))
                  else Inr (ty_item, s2))"
    if "cache_le st' s \<and> type d' = ''alternatives'' \<and> alternatives d' = Some alts \<and>
               typeName_of d' isInput' s = (n, s1) \<and>
               map_descToType (filter not_forbidden alts) isInput' s1 = Inr (tys, s2)"
    for s d' isInput' alts s1 tys s2
  proof -
    from that have a: "type d' = ''alternatives''" and al: "alternatives d' = Some alts"
      and tn: "typeName_of d' isInput' s = (n, s1)"
      and m: "map_descToType (filter not_forbidden alts) isInput' s1 = Inr (tys, s2)"
      and c: "cachedTypes s n = Some ty_item"
      using later by blast+
    show ?thesis
      unfolding alternatives_cached [OF a al tn c m] by (simp only: wrap_required_Inr)
  qed
  have arr: "descToType d' isInput' s =
                 (if isInput' \<and> presence d' ''required''
                  then Inr (GraphQLNonNull (nextRef (new_ref s3)) (GraphQLList (nextRef s3) ty_item),
                            new_ref (new_ref s3))
                  else Inr (GraphQLList (nextRef s3) ty_item, new_ref s3))"
    if "cache_le st' s \<and> type d' = ''array'' \<and> items d' = Some its' \<and>
               1 < length (filter not_forbidden its') \<and>
               typeName_of d' isInput' s = (m, s1) \<and>
               compositeName (filter not_forbidden its') isInput' s1 = (n, s2) \<and>
               map_descToType (filter not_forbidden its') isInput' s2 = Inr (tys, s3)"
    for s d' isInput' its' m s1 s2 tys s3
  proof -
    from that have a: "type d' = ''array''" and it: "items d' = Some its'"
      and ln: "length (filter not_forbidden its') \<noteq> 1"
      and tn: "typeName_of d' isInput' s = (m, s1)"
      and cn: "compositeName (filter not_forbidden its') isInput' s1 = (n, s2)"
      and mp: "map_descToType (filter not_forbidden its') isInput' s2 = Inr (tys, s3)"
      and c: "cachedTypes s n = Some ty_item"
      using later by auto
    show ?thesis
      unfolding array_many_cached [OF a it ln tn cn c mp]
      by (simp add: wrap_required_Inr is_NonNull_def)
  qed
  have tail: "cachedTypes st' n = Some ty_item \<and>
            (\<forall>s d' isInput' s1.
               cache_le st' s \<and> type d' = ''object'' \<and> typeName_of d' isInput' s = (n, s1) \<longrightarrow>
               descToType d' isInput' s =
                 (if isInput' \<and> presence d' ''required''
                  then (if is_NonNull ty_item then Inl InvariantViolation
                        else Inr (GraphQLNonNull (nextRef s1) ty_item, new_ref s1))
                  else Inr (ty_item, s1))) \<and>
            (\<forall>s d' isInput' alts s1 tys s2.
               cache_le st' s \<and> type d' = ''alternatives'' \<and> alternatives d' = Some alts \<and>
               typeName_of d' isInput' s = (n, s1) \<and>
               map_descToType (filter not_forbidden alts) isInput' s1 = Inr (tys, s2) \<longrightarrow>
               descToType d' isInput' s =
                 (if isInput' \<and> presence d' ''required''
                  then (if is_NonNull ty_item then Inl InvariantViolation
                        else Inr (GraphQLNonNull (nextRef s2) ty_item, new_ref s2))
                  else Inr (ty_item, s2))) \<and>
            (\<forall>s d' isInput' its' m s1 s2 tys s3.
               cache_le st' s \<and> type d' = ''array'' \<and> items d' = Some its' \<and>
               1 < length (filter not_forbidden its') \<and>
               typeName_of d' isInput' s = (m, s1) \<and>
               compositeName (filter not_forbidden its') isInput' s1 = (n, s2) \<and>
               map_descToType (filter not_forbidden its') isInput' s2 = Inr (tys, s3) \<longrightarrow>
               descToType d' isInput' s =
                 (if isInput' \<and> presence d' ''required''
                  then Inr (GraphQLNonNull (nextRef (new_ref s3)) (GraphQLList (nextRef s3) ty_item),
                            new_ref (new_ref s3))
                  else Inr (GraphQLList (nextRef s3) ty_item, new_ref s3)))"
    using cached obj alt arr by (intro conjI allI impI)
  show ?thesis
    apply (rule conjI [OF name])
    apply (rule exI [of _ ty], rule exI [of _ st'])
    apply (rule conjI [OF res tail])
    done
qed

theorem array_single_item_cached_under_array_name_witness:
  "type tags_array = ''array'' \<and> items tags_array = Some [forbidden_boolean, string_desc] \<and>
   filter not_forbidden [forbidden_boolean, string_desc] = [string_desc] \<and>
   typeName_of tags_array False st0 = (''Tags'', st0) \<and>
   descToType string_desc False st0 = Inr (GraphQLString, st0\<lparr>idCounter := 1\<rparr>) \<and>
   cachedTypes (st0\<lparr>idCounter := 1\<rparr>) ''Tags'' = None \<and>
   (\<exists>ty st'. descToType tags_array False st0 = Inr (ty, st') \<and>
      cachedTypes st' ''Tags'' = Some GraphQLString \<and>
      cache_le st' st' \<and> type tag_object = ''object'' \<and>
      typeName_of tag_object False st' = (''Tags'', st') \<and>
      descToType tag_object False st' = Inr (GraphQLString, st'))"
proof -
  have a: "type tags_array = ''array''" "items tags_array = Some [forbidden_boolean, string_desc]"
    "filter not_forbidden [forbidden_boolean, string_desc] = [string_desc]"
    by (simp_all add: tags_array_def forbidden_boolean_def string_desc_def eval_defs)
  have b: "typeName_of tags_array False st0 = (''Tags'', st0)"
    by (simp add: tags_array_def eval_defs)
  have c: "descToType string_desc False st0 = Inr (GraphQLString, st0\<lparr>idCounter := 1\<rparr>)"
    by (simp add: string_desc_def st0_def eval_defs descToType.simps)
  have d: "cachedTypes (st0\<lparr>idCounter := 1\<rparr>) ''Tags'' = None"
    by (simp add: st0_def)
  have e: "type tag_object = ''object''" "\<And>s. typeName_of tag_object False s = (''Tags'', s)"
    "\<not> presence tag_object ''required''"
    by (simp_all add: tag_object_def eval_defs)
  note inst = array_single_item_cached_under_array_name [OF a b c d, THEN conjunct2]
  have "\<exists>ty st'. descToType tags_array False st0 = Inr (ty, st') \<and>
      cachedTypes st' ''Tags'' = Some GraphQLString \<and>
      (\<forall>s d' isInput' s1.
               cache_le st' s \<and> type d' = ''object'' \<and> typeName_of d' isInput' s = (''Tags'', s1) \<longrightarrow>
               descToType d' isInput' s =
                 (if isInput' \<and> presence d' ''required''
                  then (if is_NonNull GraphQLString then Inl InvariantViolation
                        else Inr (GraphQLNonNull (nextRef s1) GraphQLString, new_ref s1))
                  else Inr (GraphQLString, s1)))"
    using inst by (elim exE conjE) (intro exI conjI; assumption)
  then obtain ty st' where r: "descToType tags_array False st0 = Inr (ty, st')"
    and k: "cachedTypes st' ''Tags'' = Some GraphQLString"
    and o: "\<forall>s d' isInput' s1.
               cache_le st' s \<and> type d' = ''object'' \<and> typeName_of d' isInput' s = (''Tags'', s1) \<longrightarrow>
               descToType d' isInput' s =
                 (if isInput' \<and> presence d' ''required''
                  then (if is_NonNull GraphQLString then Inl InvariantViolation
                        else Inr (GraphQLNonNull (nextRef s1) GraphQLString, new_ref s1))
                  else Inr (GraphQLString, s1))"
    by blast
  from o [rule_format, of st' tag_object False st'] e
  have "descToType tag_object False st' = Inr (GraphQLString, st')" by simp
  with r k e a b c d show ?thesis by auto
qed

text \<open>
  C10 as stated has every later description that computes the name receive the item's
  type. Once \<open>tags_array\<close> is translated, \<^verbatim>\<open>Tags\<close> is cached as \<^verbatim>\<open>GraphQLString\<close>; a number
  description annotated with that name computes the name \<^verbatim>\<open>Tags\<close> and translates to
  \<^verbatim>\<open>GraphQLFloat\<close>: line 56 never looks at the cache.
\<close>

theorem array_name_cache_counterexample:
  "descToType tags_array False st0 = Inr (GraphQLList 0 GraphQLString, tags_state) \<and>
   cachedTypes tags_state ''Tags'' = Some GraphQLString \<and>
   typeName_of tagged_number False tags_state = (''Tags'', tags_state) \<and>
   descToType tagged_number False tags_state = Inr (GraphQLFloat, tags_state) \<and>
   GraphQLFloat \<noteq> GraphQLString"
  by (simp add: tags_defs eval_defs descToType.simps)

end
